(* ===== verification/Prelude.thy ===== *)
theory Prelude
  imports Main "HOL-Library.Word"
begin

text \<open>
  Shared vocabulary of the development: bytes and machine integers, the outcome of a Go
  statement that may panic or block, Go slices with their capacity, the fixed-width
  encodings of \<open>encoding/binary\<close>, and the generic lemmas the component theories share.
\<close>

unbundle bit_operations_syntax

section \<open>Machine integers\<close>

type_synonym byte = "8 word"
type_synonym u16 = "16 word"
type_synonym u32 = "32 word"
type_synonym u64 = "64 word"
type_synonym bytes = "byte list"

named_theorems outcome_simps \<open>unfolding rules for sequenced outcomes\<close>
named_theorems codec_simps \<open>round trips and lengths of the fixed-width encodings\<close>
named_theorems slice_simps \<open>reads of Go slices\<close>

section \<open>Outcomes\<close>

text \<open>
  A statement of the program finishes with a value, panics (which ends the process, since no
  goroutine recovers), or blocks for ever on a channel. Error returns are ordinary values
  and live inside \<open>Done\<close>.
\<close>

datatype 'a outcome = Done 'a | Panic | Blocked

fun obind :: "'a outcome \<Rightarrow> ('a \<Rightarrow> 'b outcome) \<Rightarrow> 'b outcome" where
  "obind (Done x) f = f x"
| "obind Panic f = Panic"
| "obind Blocked f = Blocked"

lemma obind_Done_iff [outcome_simps]:
  "obind m f = Done y \<longleftrightarrow> (\<exists>x. m = Done x \<and> f x = Done y)"
  by (cases m) auto

lemma obind_Panic_iff [outcome_simps]:
  "obind m f = Panic \<longleftrightarrow> m = Panic \<or> (\<exists>x. m = Done x \<and> f x = Panic)"
  by (cases m) auto

lemma obind_Blocked_iff [outcome_simps]:
  "obind m f = Blocked \<longleftrightarrow> m = Blocked \<or> (\<exists>x. m = Done x \<and> f x = Blocked)"
  by (cases m) auto

lemma obind_assoc: "obind (obind m f) g = obind m (\<lambda>x. obind (f x) g)"
  by (cases m) auto

lemma obind_Done_right [simp]: "obind m Done = m"
  by (cases m) auto

lemma obind_cong [fundef_cong]:
  "m = m' \<Longrightarrow> (\<And>x. m' = Done x \<Longrightarrow> f x = f' x) \<Longrightarrow> obind m f = obind m' f'"
  by (cases m') auto

definition returns :: "'a outcome \<Rightarrow> bool" where
  "returns m \<longleftrightarrow> (case m of Done _ \<Rightarrow> True | _ \<Rightarrow> False)"

lemma returns_iff: "returns m \<longleftrightarrow> (\<exists>x. m = Done x)"
  by (cases m) (auto simp: returns_def)

lemma returns_Done [simp]: "returns (Done x)"
  by (simp add: returns_def)

lemma returns_obind [simp]:
  "returns (obind m f) \<longleftrightarrow> (\<exists>x. m = Done x \<and> returns (f x))"
  by (cases m) (auto simp: returns_def)

text \<open>A loop that appends one result per index, stopping at the first panic.\<close>

fun omap :: "('a \<Rightarrow> 'b outcome) \<Rightarrow> 'a list \<Rightarrow> 'b list outcome" where
  "omap f [] = Done []"
| "omap f (x # xs) = obind (f x) (\<lambda>y. obind (omap f xs) (\<lambda>ys. Done (y # ys)))"

lemma omap_Done_all: "(\<And>x. x \<in> set xs \<Longrightarrow> f x = Done (g x)) \<Longrightarrow> omap f xs = Done (map g xs)"
  by (induction xs) auto

lemma omap_length: "omap f xs = Done ys \<Longrightarrow> length ys = length xs"
  by (induction xs arbitrary: ys) (auto simp: outcome_simps)

section \<open>Go slices\<close>

text \<open>
  A slice is its visible bytes together with the rest of its backing array, up to the
  capacity. Indexing is checked against the length; reslicing is checked against the
  capacity, so it may uncover bytes behind the end.
\<close>

record slice =
  vis :: bytes
  spare :: bytes

definition mk_slice :: "bytes \<Rightarrow> slice" where
  "mk_slice bs = \<lparr>vis = bs, spare = []\<rparr>"

definition slen :: "slice \<Rightarrow> nat" where
  "slen s = length (vis s)"

definition scap :: "slice \<Rightarrow> nat" where
  "scap s = length (vis s) + length (spare s)"

definition sbacking :: "slice \<Rightarrow> bytes" where
  "sbacking s = vis s @ spare s"

definition sidx :: "slice \<Rightarrow> nat \<Rightarrow> byte outcome" where
  "sidx s i = (if i < slen s then Done (vis s ! i) else Panic)"

definition ssub :: "slice \<Rightarrow> nat \<Rightarrow> nat \<Rightarrow> slice outcome" where
  "ssub s lo hi =
     (if lo \<le> hi \<and> hi \<le> scap s
      then Done \<lparr>vis = take (hi - lo) (drop lo (sbacking s)), spare = drop hi (sbacking s)\<rparr>
      else Panic)"

lemma mk_slice_simps [simp]:
  "vis (mk_slice bs) = bs" "spare (mk_slice bs) = []" "slen (mk_slice bs) = length bs"
  "scap (mk_slice bs) = length bs" "sbacking (mk_slice bs) = bs"
  by (simp_all add: mk_slice_def slen_def scap_def sbacking_def)

lemma length_sbacking [simp]: "length (sbacking s) = scap s"
  by (simp add: sbacking_def scap_def)

lemma slen_le_scap [simp]: "slen s \<le> scap s"
  by (simp add: slen_def scap_def)

lemma sidx_Done_iff [slice_simps]: "sidx s i = Done b \<longleftrightarrow> i < slen s \<and> b = vis s ! i"
  by (auto simp: sidx_def)

lemma sidx_Panic_iff [slice_simps]: "sidx s i = Panic \<longleftrightarrow> slen s \<le> i"
  by (auto simp: sidx_def)

lemma sidx_not_Blocked [simp]: "sidx s i \<noteq> Blocked"
  by (simp add: sidx_def)

lemma ssub_Panic_iff [slice_simps]: "ssub s lo hi = Panic \<longleftrightarrow> hi < lo \<or> scap s < hi"
  by (auto simp: ssub_def)

lemma ssub_not_Blocked [simp]: "ssub s lo hi \<noteq> Blocked"
  by (simp add: ssub_def)

lemma ssub_Done_len: "ssub s lo hi = Done t \<Longrightarrow> slen t = hi - lo"
  by (auto simp: ssub_def slen_def split: if_splits)

lemma ssub_inside:
  "lo \<le> hi \<Longrightarrow> hi \<le> slen s \<Longrightarrow>
     ssub s lo hi = Done \<lparr>vis = take (hi - lo) (drop lo (vis s)), spare = drop hi (sbacking s)\<rparr>"
  by (auto simp: ssub_def slen_def scap_def sbacking_def)

section \<open>Fixed-width encodings (encoding/binary)\<close>

definition be16_put :: "u16 \<Rightarrow> bytes" where
  "be16_put v = [ucast (drop_bit 8 v), ucast v]"

definition le16_put :: "u16 \<Rightarrow> bytes" where
  "le16_put v = [ucast v, ucast (drop_bit 8 v)]"

definition le32_put :: "u32 \<Rightarrow> bytes" where
  "le32_put v = [ucast v, ucast (drop_bit 8 v), ucast (drop_bit 16 v), ucast (drop_bit 24 v)]"

text \<open>The readers index up to the last byte they need, so a short input panics.\<close>

fun be16_get :: "bytes \<Rightarrow> u16 outcome" where
  "be16_get (a # b # _) = Done (push_bit 8 (ucast a) OR ucast b)"
| "be16_get _ = Panic"

fun le16_get :: "bytes \<Rightarrow> u16 outcome" where
  "le16_get (a # b # _) = Done (ucast a OR push_bit 8 (ucast b))"
| "le16_get _ = Panic"

fun le32_get :: "bytes \<Rightarrow> u32 outcome" where
  "le32_get (a # b # c # d # _) =
     Done (ucast a OR push_bit 8 (ucast b) OR push_bit 16 (ucast c) OR push_bit 24 (ucast d))"
| "le32_get _ = Panic"

lemma put_lengths [simp, codec_simps]:
  "length (be16_put v) = 2" "length (le16_put v) = 2" "length (le32_put w) = 4"
  by (simp_all add: be16_put_def le16_put_def le32_put_def)

lemma be16_get_put [simp, codec_simps]: "be16_get (be16_put v @ rest) = Done v"
  by (simp add: be16_put_def) (rule bit_word_eqI, auto simp: bit_simps)

lemma le16_get_put [simp, codec_simps]: "le16_get (le16_put v @ rest) = Done v"
  by (simp add: le16_put_def) (rule bit_word_eqI, auto simp: bit_simps)

lemma le32_get_put [simp, codec_simps]: "le32_get (le32_put v @ rest) = Done v"
proof -
  have "(ucast (ucast v :: byte) OR push_bit 8 (ucast (ucast (drop_bit 8 v) :: byte))
      OR push_bit 16 (ucast (ucast (drop_bit 16 v) :: byte))
      OR push_bit 24 (ucast (ucast (drop_bit 24 v) :: byte))) = v" (is "?l = v")
  proof (rule bit_word_eqI)
    fix n assume "n < LENGTH(32)"
    then consider "n < 8" | "8 \<le> n" "n < 16" | "16 \<le> n" "n < 24" | "24 \<le> n" "n < 32"
      by fastforce
    then show "bit ?l n \<longleftrightarrow> bit v n"
      by cases (auto simp: bit_simps)
  qed
  then show ?thesis by (simp add: le32_put_def)
qed

lemmas be16_get_put_nil [simp, codec_simps] = be16_get_put [where rest = "[]", simplified]
lemmas le16_get_put_nil [simp, codec_simps] = le16_get_put [where rest = "[]", simplified]
lemmas le32_get_put_nil [simp, codec_simps] = le32_get_put [where rest = "[]", simplified]

lemma be16_get_Panic_iff: "be16_get bs = Panic \<longleftrightarrow> length bs < 2"
  by (cases bs rule: be16_get.cases) auto

lemma le16_get_Panic_iff: "le16_get bs = Panic \<longleftrightarrow> length bs < 2"
  by (cases bs rule: le16_get.cases) auto

lemma le32_get_Panic_iff: "le32_get bs = Panic \<longleftrightarrow> length bs < 4"
  by (cases bs rule: le32_get.cases) auto

lemma get_not_Blocked [simp]:
  "be16_get bs \<noteq> Blocked" "le16_get bs \<noteq> Blocked" "le32_get cs \<noteq> Blocked"
  by (cases bs rule: be16_get.cases, simp_all, cases bs rule: le16_get.cases, simp_all,
      cases cs rule: le32_get.cases, simp_all)

lemma be16_get_Done: "2 \<le> length bs \<Longrightarrow> \<exists>v. be16_get bs = Done v"
  by (cases "be16_get bs") (auto simp: be16_get_Panic_iff)

lemma le16_get_Done: "2 \<le> length bs \<Longrightarrow> \<exists>v. le16_get bs = Done v"
  by (cases "le16_get bs") (auto simp: le16_get_Panic_iff)

lemma le32_get_Done: "4 \<le> length bs \<Longrightarrow> \<exists>v. le32_get bs = Done v"
  by (cases "le32_get bs") (auto simp: le32_get_Panic_iff)

section \<open>Fixed-width codecs\<close>

text \<open>
  The contract of a fixed-width encoding, and what follows for arrays of elements laid out
  one after the other: reading the elements back by their offsets returns them.
\<close>

locale fixed_codec =
  fixes put :: "'v \<Rightarrow> bytes" and get :: "bytes \<Rightarrow> 'v outcome" and width :: nat
  assumes get_put: "get (put v @ rest) = Done v"
    and put_width: "length (put v) = width"
    and get_total: "width \<le> length bs \<Longrightarrow> returns (get bs)"
begin

lemma chunk: "take width (drop (length pre * width) (concat (map put pre) @ put v @ post)) = put v"
proof -
  have "length (concat (map put pre)) = length pre * width"
    by (induction pre) (simp_all add: put_width)
  then show ?thesis by (simp add: put_width)
qed

lemma array_get_put:
  "omap (\<lambda>i. get (take width (drop (i * width) (concat (map put vs))))) [0..<length vs] = Done vs"
proof -
  have "get (take width (drop (i * width) (concat (map put vs)))) = Done (vs ! i)"
    if "i \<in> set [0..<length vs]" for i
  proof -
    from that have vs: "vs = take i vs @ (vs ! i) # drop (Suc i) vs" and "length (take i vs) = i"
      by (auto simp: id_take_nth_drop [symmetric])
    then have "take width (drop (i * width) (concat (map put vs))) = put (vs ! i)"
      using chunk [of "take i vs" "vs ! i" "concat (map put (drop (Suc i) vs))"]
      by (metis concat.simps(2) concat_append list.simps(9) map_append)
    then show ?thesis using get_put [of _ "[]"] by simp
  qed
  then show ?thesis by (subst omap_Done_all [where g = "\<lambda>i. vs ! i"]) (auto simp: map_nth)
qed

lemma array_returns:
  assumes "n * width \<le> length data"
  shows "returns (omap (\<lambda>i. get (take width (drop (i * width) data))) [0..<n])"
proof -
  have "\<exists>y. get (take width (drop (i * width) data)) = Done y" if "i < n" for i
  proof -
    have "Suc i * width \<le> n * width" using that by (intro mult_le_mono1) simp
    then show ?thesis using assms get_total by (simp add: returns_iff)
  qed
  then obtain g where "\<And>i. i < n \<Longrightarrow> get (take width (drop (i * width) data)) = Done (g i)"
    by metis
  then show ?thesis by (subst omap_Done_all [where g = g]) auto
qed

end

interpretation le32: fixed_codec le32_put le32_get 4
  by unfold_locales (auto simp: returns_iff le32_get_Done)

interpretation le16: fixed_codec le16_put le16_get 2
  by unfold_locales (auto simp: returns_iff le16_get_Done)

interpretation be16: fixed_codec be16_put be16_get 2
  by unfold_locales (auto simp: returns_iff be16_get_Done)

section \<open>Generic lemmas\<close>

lemma take_drop_append_exact:
  "take (length ys) (drop (length xs) (xs @ ys @ zs)) = ys"
  by simp

lemma two_at: "i + 2 \<le> length bs \<Longrightarrow> take 2 (drop i bs) = [bs ! i, bs ! (i + 1)]"
  by (metis Cons_nth_drop_Suc One_nat_def Suc_eq_plus1 Suc_lessD Suc_le_eq add_2_eq_Suc' take0 numeral_2_eq_2 take_Suc_Cons)

lemma unat_byte_less [simp]: "unat (b :: byte) < 256"
  using unsigned_less [of b, where ?'a = nat] by simp

lemma unat_u16_less [simp]: "unat (w :: u16) < 65536"
  using unsigned_less [of w, where ?'a = nat] by simp

lemma bit_imp_less:
  assumes "unat (w :: 'a::len word) < 2 ^ n" "bit w m"
  shows "m < n"
proof -
  have "take_bit n (unat w) = unat w"
    using assms(1) by (simp add: take_bit_nat_eq_self)
  moreover have "bit (unat w) m"
    using assms(2) by (simp add: bit_unsigned_iff)
  ultimately show ?thesis by (metis bit_take_bit_iff)
qed

lemma byte_and_15: "(b :: byte) AND 15 = take_bit 4 b"
  by (simp add: take_bit_eq_mask mask_eq_exp_minus_1)

lemma word8_nibbles: "push_bit 4 (drop_bit 4 b) OR (b AND 15) = (b :: byte)"
  unfolding byte_and_15
proof (rule bit_word_eqI)
  fix n :: nat
  show "bit (push_bit 4 (drop_bit 4 b) OR take_bit 4 b) n \<longleftrightarrow> bit b n"
    by (cases "n < 4") (auto simp: bit_simps dest: bit_imp_le_length)
qed

end
