(* ===== verification/Crc16.thy ===== *)
theory Crc16
  imports Prelude
begin

text \<open>
  The frame checksum: \<open>CRC16\<close> of \<open>frameparser/crc.go\<close> and its copy in
  \<open>config/tool.go\<close>, both table driven. The reference is the bitwise CRC-16 with the
  reflected polynomial A001 and initial value FFFF; the table versions are proved equal to
  it. The interface \<open>checksum\<close> says what a receiver relies on: the register is updated
  injectively, so a corruption confined to two neighbouring bytes is always seen.
\<close>

section \<open>The table-driven code\<close>

definition auchCRCHi :: "byte list" where
  "auchCRCHi = [
    0x00, 0xC1, 0x81, 0x40, 0x01, 0xC0, 0x80, 0x41, 0x01, 0xC0, 0x80, 0x41,
    0x00, 0xC1, 0x81, 0x40, 0x01, 0xC0, 0x80, 0x41, 0x00, 0xC1, 0x81, 0x40,
    0x00, 0xC1, 0x81, 0x40, 0x01, 0xC0, 0x80, 0x41, 0x01, 0xC0, 0x80, 0x41,
    0x00, 0xC1, 0x81, 0x40, 0x00, 0xC1, 0x81, 0x40, 0x01, 0xC0, 0x80, 0x41,
    0x00, 0xC1, 0x81, 0x40, 0x01, 0xC0, 0x80, 0x41, 0x01, 0xC0, 0x80, 0x41,
    0x00, 0xC1, 0x81, 0x40, 0x01, 0xC0, 0x80, 0x41, 0x00, 0xC1, 0x81, 0x40,
    0x00, 0xC1, 0x81, 0x40, 0x01, 0xC0, 0x80, 0x41, 0x00, 0xC1, 0x81, 0x40,
    0x01, 0xC0, 0x80, 0x41, 0x01, 0xC0, 0x80, 0x41, 0x00, 0xC1, 0x81, 0x40,
    0x00, 0xC1, 0x81, 0x40, 0x01, 0xC0, 0x80, 0x41, 0x01, 0xC0, 0x80, 0x41,
    0x00, 0xC1, 0x81, 0x40, 0x01, 0xC0, 0x80, 0x41, 0x00, 0xC1, 0x81, 0x40,
    0x00, 0xC1, 0x81, 0x40, 0x01, 0xC0, 0x80, 0x41, 0x01, 0xC0, 0x80, 0x41,
    0x00, 0xC1, 0x81, 0x40, 0x00, 0xC1, 0x81, 0x40, 0x01, 0xC0, 0x80, 0x41,
    0x00, 0xC1, 0x81, 0x40, 0x01, 0xC0, 0x80, 0x41, 0x01, 0xC0, 0x80, 0x41,
    0x00, 0xC1, 0x81, 0x40, 0x00, 0xC1, 0x81, 0x40, 0x01, 0xC0, 0x80, 0x41,
    0x01, 0xC0, 0x80, 0x41, 0x00, 0xC1, 0x81, 0x40, 0x01, 0xC0, 0x80, 0x41,
    0x00, 0xC1, 0x81, 0x40, 0x00, 0xC1, 0x81, 0x40, 0x01, 0xC0, 0x80, 0x41,
    0x00, 0xC1, 0x81, 0x40, 0x01, 0xC0, 0x80, 0x41, 0x01, 0xC0, 0x80, 0x41,
    0x00, 0xC1, 0x81, 0x40, 0x01, 0xC0, 0x80, 0x41, 0x00, 0xC1, 0x81, 0x40,
    0x00, 0xC1, 0x81, 0x40, 0x01, 0xC0, 0x80, 0x41, 0x01, 0xC0, 0x80, 0x41,
    0x00, 0xC1, 0x81, 0x40, 0x00, 0xC1, 0x81, 0x40, 0x01, 0xC0, 0x80, 0x41,
    0x00, 0xC1, 0x81, 0x40, 0x01, 0xC0, 0x80, 0x41, 0x01, 0xC0, 0x80, 0x41,
    0x00, 0xC1, 0x81, 0x40]"

definition auchCRCLo :: "byte list" where
  "auchCRCLo = [
    0x00, 0xC0, 0xC1, 0x01, 0xC3, 0x03, 0x02, 0xC2, 0xC6, 0x06, 0x07, 0xC7,
    0x05, 0xC5, 0xC4, 0x04, 0xCC, 0x0C, 0x0D, 0xCD, 0x0F, 0xCF, 0xCE, 0x0E,
    0x0A, 0xCA, 0xCB, 0x0B, 0xC9, 0x09, 0x08, 0xC8, 0xD8, 0x18, 0x19, 0xD9,
    0x1B, 0xDB, 0xDA, 0x1A, 0x1E, 0xDE, 0xDF, 0x1F, 0xDD, 0x1D, 0x1C, 0xDC,
    0x14, 0xD4, 0xD5, 0x15, 0xD7, 0x17, 0x16, 0xD6, 0xD2, 0x12, 0x13, 0xD3,
    0x11, 0xD1, 0xD0, 0x10, 0xF0, 0x30, 0x31, 0xF1, 0x33, 0xF3, 0xF2, 0x32,
    0x36, 0xF6, 0xF7, 0x37, 0xF5, 0x35, 0x34, 0xF4, 0x3C, 0xFC, 0xFD, 0x3D,
    0xFF, 0x3F, 0x3E, 0xFE, 0xFA, 0x3A, 0x3B, 0xFB, 0x39, 0xF9, 0xF8, 0x38,
    0x28, 0xE8, 0xE9, 0x29, 0xEB, 0x2B, 0x2A, 0xEA, 0xEE, 0x2E, 0x2F, 0xEF,
    0x2D, 0xED, 0xEC, 0x2C, 0xE4, 0x24, 0x25, 0xE5, 0x27, 0xE7, 0xE6, 0x26,
    0x22, 0xE2, 0xE3, 0x23, 0xE1, 0x21, 0x20, 0xE0, 0xA0, 0x60, 0x61, 0xA1,
    0x63, 0xA3, 0xA2, 0x62, 0x66, 0xA6, 0xA7, 0x67, 0xA5, 0x65, 0x64, 0xA4,
    0x6C, 0xAC, 0xAD, 0x6D, 0xAF, 0x6F, 0x6E, 0xAE, 0xAA, 0x6A, 0x6B, 0xAB,
    0x69, 0xA9, 0xA8, 0x68, 0x78, 0xB8, 0xB9, 0x79, 0xBB, 0x7B, 0x7A, 0xBA,
    0xBE, 0x7E, 0x7F, 0xBF, 0x7D, 0xBD, 0xBC, 0x7C, 0xB4, 0x74, 0x75, 0xB5,
    0x77, 0xB7, 0xB6, 0x76, 0x72, 0xB2, 0xB3, 0x73, 0xB1, 0x71, 0x70, 0xB0,
    0x50, 0x90, 0x91, 0x51, 0x93, 0x53, 0x52, 0x92, 0x96, 0x56, 0x57, 0x97,
    0x55, 0x95, 0x94, 0x54, 0x9C, 0x5C, 0x5D, 0x9D, 0x5F, 0x9F, 0x9E, 0x5E,
    0x5A, 0x9A, 0x9B, 0x5B, 0x99, 0x59, 0x58, 0x98, 0x88, 0x48, 0x49, 0x89,
    0x4B, 0x8B, 0x8A, 0x4A, 0x4E, 0x8E, 0x8F, 0x4F, 0x8D, 0x4D, 0x4C, 0x8C,
    0x44, 0x84, 0x85, 0x45, 0x87, 0x47, 0x46, 0x86, 0x82, 0x42, 0x43, 0x83,
    0x41, 0x81, 0x80, 0x40]"

text \<open>One round of the loop; the register is the pair of \<open>crcHi\<close> and \<open>crcLo\<close>.\<close>

fun crc_round :: "byte \<times> byte \<Rightarrow> byte \<Rightarrow> byte \<times> byte" where
  "crc_round (crcHi, crcLo) b =
     (let idx = crcLo XOR b
      in (auchCRCLo ! unat idx, crcHi XOR auchCRCHi ! unat idx))"

fun crc_word :: "byte \<times> byte \<Rightarrow> u16" where
  "crc_word (crcHi, crcLo) = push_bit 8 (ucast crcHi) OR ucast crcLo"

definition CRC16 :: "bytes \<Rightarrow> u16" where
  "CRC16 data = crc_word (foldl crc_round (0xFF, 0xFF) data)"

text \<open>The copy of \<open>config/tool.go\<close>, with its own tables.\<close>

definition config_auchCRCHi :: "byte list" where
  "config_auchCRCHi = [
    0x00, 0xC1, 0x81, 0x40, 0x01, 0xC0, 0x80, 0x41, 0x01, 0xC0, 0x80, 0x41,
    0x00, 0xC1, 0x81, 0x40, 0x01, 0xC0, 0x80, 0x41, 0x00, 0xC1, 0x81, 0x40,
    0x00, 0xC1, 0x81, 0x40, 0x01, 0xC0, 0x80, 0x41, 0x01, 0xC0, 0x80, 0x41,
    0x00, 0xC1, 0x81, 0x40, 0x00, 0xC1, 0x81, 0x40, 0x01, 0xC0, 0x80, 0x41,
    0x00, 0xC1, 0x81, 0x40, 0x01, 0xC0, 0x80, 0x41, 0x01, 0xC0, 0x80, 0x41,
    0x00, 0xC1, 0x81, 0x40, 0x01, 0xC0, 0x80, 0x41, 0x00, 0xC1, 0x81, 0x40,
    0x00, 0xC1, 0x81, 0x40, 0x01, 0xC0, 0x80, 0x41, 0x00, 0xC1, 0x81, 0x40,
    0x01, 0xC0, 0x80, 0x41, 0x01, 0xC0, 0x80, 0x41, 0x00, 0xC1, 0x81, 0x40,
    0x00, 0xC1, 0x81, 0x40, 0x01, 0xC0, 0x80, 0x41, 0x01, 0xC0, 0x80, 0x41,
    0x00, 0xC1, 0x81, 0x40, 0x01, 0xC0, 0x80, 0x41, 0x00, 0xC1, 0x81, 0x40,
    0x00, 0xC1, 0x81, 0x40, 0x01, 0xC0, 0x80, 0x41, 0x01, 0xC0, 0x80, 0x41,
    0x00, 0xC1, 0x81, 0x40, 0x00, 0xC1, 0x81, 0x40, 0x01, 0xC0, 0x80, 0x41,
    0x00, 0xC1, 0x81, 0x40, 0x01, 0xC0, 0x80, 0x41, 0x01, 0xC0, 0x80, 0x41,
    0x00, 0xC1, 0x81, 0x40, 0x00, 0xC1, 0x81, 0x40, 0x01, 0xC0, 0x80, 0x41,
    0x01, 0xC0, 0x80, 0x41, 0x00, 0xC1, 0x81, 0x40, 0x01, 0xC0, 0x80, 0x41,
    0x00, 0xC1, 0x81, 0x40, 0x00, 0xC1, 0x81, 0x40, 0x01, 0xC0, 0x80, 0x41,
    0x00, 0xC1, 0x81, 0x40, 0x01, 0xC0, 0x80, 0x41, 0x01, 0xC0, 0x80, 0x41,
    0x00, 0xC1, 0x81, 0x40, 0x01, 0xC0, 0x80, 0x41, 0x00, 0xC1, 0x81, 0x40,
    0x00, 0xC1, 0x81, 0x40, 0x01, 0xC0, 0x80, 0x41, 0x01, 0xC0, 0x80, 0x41,
    0x00, 0xC1, 0x81, 0x40, 0x00, 0xC1, 0x81, 0x40, 0x01, 0xC0, 0x80, 0x41,
    0x00, 0xC1, 0x81, 0x40, 0x01, 0xC0, 0x80, 0x41, 0x01, 0xC0, 0x80, 0x41,
    0x00, 0xC1, 0x81, 0x40]"

definition config_auchCRCLo :: "byte list" where
  "config_auchCRCLo = [
    0x00, 0xC0, 0xC1, 0x01, 0xC3, 0x03, 0x02, 0xC2, 0xC6, 0x06, 0x07, 0xC7,
    0x05, 0xC5, 0xC4, 0x04, 0xCC, 0x0C, 0x0D, 0xCD, 0x0F, 0xCF, 0xCE, 0x0E,
    0x0A, 0xCA, 0xCB, 0x0B, 0xC9, 0x09, 0x08, 0xC8, 0xD8, 0x18, 0x19, 0xD9,
    0x1B, 0xDB, 0xDA, 0x1A, 0x1E, 0xDE, 0xDF, 0x1F, 0xDD, 0x1D, 0x1C, 0xDC,
    0x14, 0xD4, 0xD5, 0x15, 0xD7, 0x17, 0x16, 0xD6, 0xD2, 0x12, 0x13, 0xD3,
    0x11, 0xD1, 0xD0, 0x10, 0xF0, 0x30, 0x31, 0xF1, 0x33, 0xF3, 0xF2, 0x32,
    0x36, 0xF6, 0xF7, 0x37, 0xF5, 0x35, 0x34, 0xF4, 0x3C, 0xFC, 0xFD, 0x3D,
    0xFF, 0x3F, 0x3E, 0xFE, 0xFA, 0x3A, 0x3B, 0xFB, 0x39, 0xF9, 0xF8, 0x38,
    0x28, 0xE8, 0xE9, 0x29, 0xEB, 0x2B, 0x2A, 0xEA, 0xEE, 0x2E, 0x2F, 0xEF,
    0x2D, 0xED, 0xEC, 0x2C, 0xE4, 0x24, 0x25, 0xE5, 0x27, 0xE7, 0xE6, 0x26,
    0x22, 0xE2, 0xE3, 0x23, 0xE1, 0x21, 0x20, 0xE0, 0xA0, 0x60, 0x61, 0xA1,
    0x63, 0xA3, 0xA2, 0x62, 0x66, 0xA6, 0xA7, 0x67, 0xA5, 0x65, 0x64, 0xA4,
    0x6C, 0xAC, 0xAD, 0x6D, 0xAF, 0x6F, 0x6E, 0xAE, 0xAA, 0x6A, 0x6B, 0xAB,
    0x69, 0xA9, 0xA8, 0x68, 0x78, 0xB8, 0xB9, 0x79, 0xBB, 0x7B, 0x7A, 0xBA,
    0xBE, 0x7E, 0x7F, 0xBF, 0x7D, 0xBD, 0xBC, 0x7C, 0xB4, 0x74, 0x75, 0xB5,
    0x77, 0xB7, 0xB6, 0x76, 0x72, 0xB2, 0xB3, 0x73, 0xB1, 0x71, 0x70, 0xB0,
    0x50, 0x90, 0x91, 0x51, 0x93, 0x53, 0x52, 0x92, 0x96, 0x56, 0x57, 0x97,
    0x55, 0x95, 0x94, 0x54, 0x9C, 0x5C, 0x5D, 0x9D, 0x5F, 0x9F, 0x9E, 0x5E,
    0x5A, 0x9A, 0x9B, 0x5B, 0x99, 0x59, 0x58, 0x98, 0x88, 0x48, 0x49, 0x89,
    0x4B, 0x8B, 0x8A, 0x4A, 0x4E, 0x8E, 0x8F, 0x4F, 0x8D, 0x4D, 0x4C, 0x8C,
    0x44, 0x84, 0x85, 0x45, 0x87, 0x47, 0x46, 0x86, 0x82, 0x42, 0x43, 0x83,
    0x41, 0x81, 0x80, 0x40]"

fun config_crc_round :: "byte \<times> byte \<Rightarrow> byte \<Rightarrow> byte \<times> byte" where
  "config_crc_round (crcHi, crcLo) b =
     (let idx = crcLo XOR b
      in (config_auchCRCLo ! unat idx, crcHi XOR config_auchCRCHi ! unat idx))"

definition config_CRC16 :: "bytes \<Rightarrow> u16" where
  "config_CRC16 data = crc_word (foldl config_crc_round (0xFF, 0xFF) data)"

section \<open>The bitwise reference\<close>

definition crc_bit :: "u16 \<Rightarrow> u16" where
  "crc_bit c = (if bit c 0 then drop_bit 1 c XOR 0xA001 else drop_bit 1 c)"

definition crc_shift8 :: "u16 \<Rightarrow> u16" where
  "crc_shift8 c =
     crc_bit (crc_bit (crc_bit (crc_bit (crc_bit (crc_bit (crc_bit (crc_bit c)))))))"

definition crc_byte :: "u16 \<Rightarrow> byte \<Rightarrow> u16" where
  "crc_byte c b = crc_shift8 (c XOR ucast b)"

definition crc_ref :: "bytes \<Rightarrow> u16" where
  "crc_ref data = foldl crc_byte 0xFFFF data"

subsection \<open>Linearity and injectivity\<close>

lemma xor_eq_0_iff_eq: "(a :: 'a::len word) XOR b = 0 \<longleftrightarrow> a = b"
  by (metis xor.assoc xor_self_eq xor.right_neutral xor.left_neutral)

lemma xor_right_inj: "(a :: 'a::len word) XOR b = c XOR b \<longleftrightarrow> a = c"
  by (metis xor.assoc xor_self_eq xor.right_neutral)

lemma xor_swap_middle:
  fixes a b c d :: "'a::len word"
  assumes "a XOR b = c XOR d"
  shows "a XOR c = b XOR d"
proof (rule bit_word_eqI)
  fix n
  show "bit (a XOR c) n \<longleftrightarrow> bit (b XOR d) n"
    using arg_cong [OF assms, of "\<lambda>w. bit w n"] by (auto simp: bit_xor_iff)
qed

lemma xor_cancel_left: "(c XOR x) XOR (c XOR y) = (x :: 'a::len word) XOR y"
  by (rule bit_word_eqI) (auto simp: bit_xor_iff)

lemma crc_bit_xor: "crc_bit (a XOR b) = crc_bit a XOR crc_bit b"
  by (rule bit_word_eqI) (auto simp: crc_bit_def bit_simps)

lemma crc_shift8_xor: "crc_shift8 (a XOR b) = crc_shift8 a XOR crc_shift8 b"
  by (simp add: crc_shift8_def crc_bit_xor)

lemma bit_A001_15: "bit (0xA001 :: u16) 15"
  by simp

lemma crc_bit_eq_0:
  assumes z: "crc_bit c = 0"
  shows "c = 0"
proof -
  have "\<not> bit c 0"
  proof
    assume "bit c 0"
    then have "bit (crc_bit c) 15"
      using bit_imp_le_length [of c 16] by (auto simp: crc_bit_def bit_simps)
    with z show False by simp
  qed
  with z have "bit (drop_bit 1 c) n \<longleftrightarrow> False" for n by (simp add: crc_bit_def)
  then have "bit c (Suc n) \<longleftrightarrow> False" for n by (simp add: bit_drop_bit_eq)
  with \<open>\<not> bit c 0\<close> have "bit c n \<longleftrightarrow> False" for n by (cases n) auto
  then show "c = 0" by (auto intro: bit_eqI)
qed

lemma crc_shift8_eq_0: "crc_shift8 c = 0 \<Longrightarrow> c = 0"
  unfolding crc_shift8_def by (drule crc_bit_eq_0)+

lemma crc_shift8_inj: "crc_shift8 a = crc_shift8 b \<Longrightarrow> a = b"
proof -
  assume "crc_shift8 a = crc_shift8 b"
  then have "crc_shift8 (a XOR b) = 0" by (simp add: crc_shift8_xor)
  then have "a XOR b = 0" by (rule crc_shift8_eq_0)
  then show "a = b" by (simp add: xor_eq_0_iff_eq)
qed

lemma crc_bit_push:
  assumes "0 < m" "m \<le> 8"
  shows "crc_bit (push_bit m (ucast (b :: byte))) = push_bit (m - 1) (ucast b)"
proof -
  have "crc_bit (push_bit m (ucast b)) = drop_bit 1 (push_bit m (ucast b))"
    using assms(1) by (simp add: crc_bit_def bit_push_bit_iff)
  also have "\<dots> = push_bit (m - 1) (ucast b)"
  proof (rule bit_word_eqI)
    fix n assume n: "n < LENGTH(16)"
    have "bit (drop_bit 1 (push_bit m (ucast b) :: u16)) n \<longleftrightarrow> m \<le> Suc n \<and> Suc n < 16 \<and> bit b (Suc n - m)"
      by (auto simp: bit_drop_bit_eq bit_push_bit_iff bit_unsigned_iff dest: bit_imp_le_length)
    also have "\<dots> \<longleftrightarrow> m - 1 \<le> n \<and> bit b (n - (m - 1))"
      using assms n bit_imp_le_length [of b "Suc n - m"] by (auto simp: Suc_diff_le le_diff_conv)
    also have "\<dots> \<longleftrightarrow> bit (push_bit (m - 1) (ucast b) :: u16) n"
      using n by (auto simp: bit_push_bit_iff bit_unsigned_iff)
    finally show "bit (drop_bit 1 (push_bit m (ucast b) :: u16)) n \<longleftrightarrow>
      bit (push_bit (m - 1) (ucast b) :: u16) n" .
  qed
  finally show ?thesis .
qed

lemma crc_shift8_push8: "crc_shift8 (push_bit 8 (ucast (b :: byte))) = ucast b"
  unfolding crc_shift8_def
  using crc_bit_push [of 8 b] crc_bit_push [of 7 b] crc_bit_push [of 6 b] crc_bit_push [of 5 b]
    crc_bit_push [of 4 b] crc_bit_push [of 3 b] crc_bit_push [of 2 b] crc_bit_push [of 1 b]
  by simp

text \<open>A byte that differs always reaches the upper half of the register.\<close>

lemma crc_shift8_byte_high:
  assumes "crc_shift8 (ucast (y :: byte)) = ucast (z :: byte)"
  shows "y = 0 \<and> z = 0"
proof -
  have "(ucast y :: u16) = push_bit 8 (ucast z)"
    using assms crc_shift8_push8 [of z] by (metis crc_shift8_inj)
  then have eq: "bit (ucast y :: u16) n \<longleftrightarrow> bit (push_bit 8 (ucast z) :: u16) n" for n
    by simp
  have "bit y n \<longleftrightarrow> False" for n
    using eq [of n] bit_imp_le_length [of y n] by (auto simp: bit_push_bit_iff bit_unsigned_iff)
  moreover have "bit z n \<longleftrightarrow> False" for n
    using eq [of "n + 8"] bit_imp_le_length [of z n] bit_imp_le_length [of y "n + 8"]
    by (auto simp: bit_push_bit_iff bit_unsigned_iff)
  ultimately show ?thesis by (auto intro!: bit_eqI)
qed

lemma crc_byte_inj_state: "crc_byte c b = crc_byte c' b \<Longrightarrow> c = c'"
  unfolding crc_byte_def by (drule crc_shift8_inj) (simp add: xor_right_inj)

lemma crc_byte_inj_pair:
  assumes "crc_byte (crc_byte c a) b = crc_byte (crc_byte c a') b'"
  shows "a = a' \<and> b = b'"
proof -
  let ?s = "\<lambda>x. crc_shift8 (c XOR ucast x)"
  have "?s a XOR ucast b = ?s a' XOR ucast b'"
    using assms unfolding crc_byte_def by (rule crc_shift8_inj)
  then have "?s a XOR ?s a' = ucast b XOR ucast b'" by (rule xor_swap_middle)
  moreover have "?s a XOR ?s a' = crc_shift8 (ucast a XOR ucast a')"
    by (simp add: crc_shift8_xor xor_cancel_left)
  ultimately have "crc_shift8 (ucast (a XOR a')) = ucast (b XOR b')"
    by (simp add: unsigned_xor_eq)
  then have "a XOR a' = 0 \<and> b XOR b' = 0" by (rule crc_shift8_byte_high)
  then show ?thesis by (simp add: xor_eq_0_iff_eq)
qed

section \<open>The tables compute the reference\<close>

lemma table_lengths [simp]:
  "length auchCRCHi = 256" "length auchCRCLo = 256"
  by (simp_all add: auchCRCHi_def auchCRCLo_def)

fun tables_ok :: "u16 \<Rightarrow> bytes \<Rightarrow> bytes \<Rightarrow> bool" where
  "tables_ok i (h # hs) (l # ls) \<longleftrightarrow>
     crc_shift8 i = push_bit 8 (ucast l) OR ucast h \<and> tables_ok (i + 1) hs ls"
| "tables_ok i _ _ \<longleftrightarrow> True"

lemma tables_ok_nth:
  "tables_ok i hs ls \<Longrightarrow> k < length hs \<Longrightarrow> k < length ls \<Longrightarrow>
   crc_shift8 (i + of_nat k) = push_bit 8 (ucast (ls ! k)) OR ucast (hs ! k)"
proof (induction i hs ls arbitrary: k rule: tables_ok.induct)
  case (1 i h hs l ls)
  then show ?case by (cases k) (auto simp: add.assoc)
qed auto

lemma auchCRC_tables_ok: "tables_ok 0 auchCRCHi auchCRCLo"
  by (simp add: auchCRCHi_def auchCRCLo_def crc_shift8_def crc_bit_def)

lemma auchCRC_entry:
  "crc_shift8 (ucast (b :: byte)) =
   push_bit 8 (ucast (auchCRCLo ! unat b)) OR ucast (auchCRCHi ! unat b)"
proof -
  have "crc_shift8 (0 + of_nat (unat b)) =
      push_bit 8 (ucast (auchCRCLo ! unat b)) OR ucast (auchCRCHi ! unat b)"
    by (intro tables_ok_nth [OF auchCRC_tables_ok]) simp_all
  moreover have "(of_nat (unat b) :: u16) = ucast b" by simp
  ultimately show ?thesis by simp
qed

lemma crc_word_xor_low:
  "crc_word (h, l) XOR ucast b = crc_word (h, l XOR (b :: byte))"
  by (rule bit_word_eqI) (auto simp: bit_simps dest: bit_imp_le_length)

lemma crc_word_split: "crc_word (h, l) = push_bit 8 (ucast h) XOR ucast l"
  by (rule bit_word_eqI) (auto simp: bit_simps dest: bit_imp_le_length)

lemma crc_round_ref: "crc_word (crc_round r b) = crc_byte (crc_word r) b"
proof (cases r)
  case (Pair h l)
  let ?i = "l XOR b"
  have "crc_byte (crc_word r) b = crc_shift8 (push_bit 8 (ucast h) XOR ucast ?i)"
    by (simp add: Pair crc_byte_def crc_word_xor_low del: crc_word.simps) (simp only: crc_word_split)
  also have "\<dots> = ucast h XOR (push_bit 8 (ucast (auchCRCLo ! unat ?i)) OR ucast (auchCRCHi ! unat ?i))"
    by (simp only: crc_shift8_xor crc_shift8_push8 auchCRC_entry)
  also have "\<dots> = crc_word (auchCRCLo ! unat ?i, h XOR auchCRCHi ! unat ?i)"
    by (rule bit_word_eqI) (auto simp: bit_simps dest: bit_imp_le_length)
  finally show ?thesis by (simp add: Pair Let_def)
qed

lemma crc_rounds_ref: "crc_word (foldl crc_round r data) = foldl crc_byte (crc_word r) data"
  by (induction data arbitrary: r) (simp_all add: crc_round_ref del: crc_word.simps)

lemma config_tables [simp]:
  "config_auchCRCHi = auchCRCHi" "config_auchCRCLo = auchCRCLo"
  by (simp_all only: config_auchCRCHi_def auchCRCHi_def config_auchCRCLo_def auchCRCLo_def)

lemma config_crc_round_eq: "config_crc_round = crc_round"
  by (intro ext) (auto simp: Let_def)

section \<open>The checksum interface\<close>

text \<open>
  What a receiver of frames needs from a checksum that folds a register over the bytes:
  each byte updates the register injectively, two bytes can be read off the register, and
  the register can be read off the published value.
\<close>

locale checksum =
  fixes upd :: "'r \<Rightarrow> byte \<Rightarrow> 'r"
    and start :: 'r
    and publish :: "'r \<Rightarrow> 'v"
  assumes upd_inj_state: "upd r b = upd r' b \<Longrightarrow> r = r'"
    and upd_inj_pair: "upd (upd r a) b = upd (upd r a') b' \<Longrightarrow> a = a' \<and> b = b'"
    and publish_inj: "publish r = publish r' \<Longrightarrow> r = r'"
begin

lemma run_inj_state: "foldl upd r data = foldl upd r' data \<Longrightarrow> r = r'"
  by (induction data arbitrary: r r') (auto dest: upd_inj_state)

lemma burst_detected:
  assumes "publish (foldl upd start (pre @ [a, b] @ post)) =
    publish (foldl upd start (pre @ [a', b'] @ post))"
  shows "a = a' \<and> b = b'"
proof -
  let ?r = "foldl upd start pre"
  have "foldl upd (upd (upd ?r a) b) post = foldl upd (upd (upd ?r a') b') post"
    using assms by (auto dest: publish_inj)
  then have "upd (upd ?r a) b = upd (upd ?r a') b'" by (rule run_inj_state)
  then show ?thesis by (rule upd_inj_pair)
qed

lemma last_byte_detected:
  assumes "publish (foldl upd start (pre @ [a])) = publish (foldl upd start (pre @ [a']))"
  shows "a = a'"
proof -
  have "upd (upd (foldl upd start pre) a) 0 = upd (upd (foldl upd start pre) a') 0"
    using assms by (auto dest: publish_inj)
  then show ?thesis by (blast dest: upd_inj_pair)
qed

lemma single_byte_detected:
  assumes "publish (foldl upd start (pre @ [a] @ post)) =
    publish (foldl upd start (pre @ [a'] @ post))"
  shows "a = a'"
  using assms
proof (cases post)
  case Nil
  with assms last_byte_detected [of pre a a'] show ?thesis by simp
next
  case (Cons c cs)
  with assms burst_detected [of pre a c cs a' c] show ?thesis by simp
qed

end

lemma crc_word_inj: "crc_word r = crc_word r' \<Longrightarrow> r = r'"
proof (cases r; cases r')
  fix h l h' l'
  assume eq: "crc_word r = crc_word r'" and r: "r = (h, l)" "r' = (h', l')"
  have b: "bit (crc_word (h, l)) n \<longleftrightarrow> bit (crc_word (h', l')) n" for n
    using eq r by simp
  have "bit l n \<longleftrightarrow> bit l' n" if "n < 8" for n
    using b [of n] that by (simp add: bit_simps)
  moreover have "bit h n \<longleftrightarrow> bit h' n" if "n < 8" for n
    using b [of "n + 8"] that bit_imp_le_length [of l "n + 8"] bit_imp_le_length [of l' "n + 8"]
    by (auto simp: bit_simps)
  ultimately show "r = r'" using r by (auto intro!: bit_word_eqI)
qed

interpretation frame_crc: checksum crc_round "(0xFF, 0xFF)" crc_word
proof unfold_locales
  fix r r' b assume "crc_round r b = crc_round r' b"
  then have "crc_byte (crc_word r) b = crc_byte (crc_word r') b"
    by (simp flip: crc_round_ref)
  then show "r = r'" by (intro crc_word_inj) (rule crc_byte_inj_state)
next
  fix r a b a' b' assume "crc_round (crc_round r a) b = crc_round (crc_round r a') b'"
  then have "crc_byte (crc_byte (crc_word r) a) b = crc_byte (crc_byte (crc_word r) a') b'"
    by (simp flip: crc_round_ref)
  then show "a = a' \<and> b = b'" by (rule crc_byte_inj_pair)
next
  fix r r' assume "crc_word r = crc_word r'"
  then show "r = r'" by (rule crc_word_inj)
qed

section \<open>Properties\<close>

text \<open>C15: the table-driven CRC16 of the frame parser computes, for every input, the bitwise
  CRC-16 with the reflected polynomial A001 and initial value FFFF, and the second copy in
  package config computes the same value.\<close>

theorem CRC16_is_reference: "CRC16 data = crc_ref data \<and> config_CRC16 data = crc_ref data"
proof -
  have "CRC16 data = crc_ref data"
    by (simp add: CRC16_def crc_ref_def crc_rounds_ref del: crc_word.simps) simp
  then show ?thesis
    by (simp add: config_CRC16_def CRC16_def config_crc_round_eq)
qed

text \<open>C28: a corruption of a message that is confined to two neighbouring bytes always changes
  its CRC16, wherever in the message it strikes.\<close>

theorem CRC16_detects_two_byte_bursts:
  assumes "(a, b) \<noteq> (a', b')"
  shows "CRC16 (pre @ [a, b] @ post) \<noteq> CRC16 (pre @ [a', b'] @ post)"
  using assms frame_crc.burst_detected [of pre a b post a' b'] by (auto simp: CRC16_def)

theorem CRC16_detects_two_byte_bursts_witness:
  "CRC16 ([0x23, 0x8A] @ [1, 2] @ [3]) \<noteq> CRC16 ([0x23, 0x8A] @ [2, 1] @ [3])"
  by (rule CRC16_detects_two_byte_bursts) simp

end
