(* ===== verification/GoText.thy ===== *)
theory GoText
  imports Prelude "HOL-Library.AList"
begin

text \<open>
  The parts of Go's standard library the program works with on text and maps: strings as
  byte sequences (\<open>encoding/hex\<close>, \<open>strconv\<close>, \<open>strings\<close>) and maps as
  association lists with distinct keys, whose iteration order is any permutation.
\<close>

section \<open>Maps\<close>

type_synonym 'v gomap = "(string \<times> 'v) list"

abbreviation mget :: "('k \<times> 'v) list \<Rightarrow> 'k \<Rightarrow> 'v option" where
  "mget \<equiv> map_of"

abbreviation mput :: "'k \<Rightarrow> 'v \<Rightarrow> ('k \<times> 'v) list \<Rightarrow> ('k \<times> 'v) list" where
  "mput \<equiv> AList.update"

abbreviation mdel :: "'k \<Rightarrow> ('k \<times> 'v) list \<Rightarrow> ('k \<times> 'v) list" where
  "mdel \<equiv> AList.delete"

definition wf_map :: "('k \<times> 'v) list \<Rightarrow> bool" where
  "wf_map m \<longleftrightarrow> distinct (map fst m)"

lemma wf_map_Nil [simp]: "wf_map []"
  by (simp add: wf_map_def)

lemma wf_map_put [simp]: "wf_map m \<Longrightarrow> wf_map (mput k v m)"
  by (simp add: wf_map_def distinct_update)

lemma wf_map_del [simp]: "wf_map m \<Longrightarrow> wf_map (mdel k m)"
  by (simp add: wf_map_def distinct_delete)

lemma mget_put: "mget (mput k v m) k' = (if k' = k then Some v else mget m k')"
  by (simp add: update_conv')

lemma mget_del: "mget (mdel k m) k' = (if k' = k then None else mget m k')"
  by (simp add: delete_conv')

lemma wf_map_in_iff: "wf_map m \<Longrightarrow> (k, v) \<in> set m \<longleftrightarrow> mget m k = Some v"
  unfolding wf_map_def by (metis map_of_eq_Some_iff)

section \<open>Hexadecimal (encoding/hex)\<close>

definition hex_lower_digits :: string where
  "hex_lower_digits = ''0123456789abcdef''"

definition hex_EncodeToString :: "bytes \<Rightarrow> string" where
  "hex_EncodeToString bs =
     concat (map (\<lambda>b. [hex_lower_digits ! unat (drop_bit 4 b), hex_lower_digits ! unat (b AND 15)]) bs)"

text \<open>\<open>strings.ToUpper\<close>, on the ASCII strings it is used for.\<close>

definition upper_char :: "char \<Rightarrow> char" where
  "upper_char c = (let n = (of_char c :: nat) in
     if 97 \<le> n \<and> n \<le> 122 then char_of (n - 32) else c)"

definition ToUpper :: "string \<Rightarrow> string" where
  "ToUpper s = map upper_char s"

definition hex_upper_digits :: string where
  "hex_upper_digits = ''0123456789ABCDEF''"

definition hex_upper :: "bytes \<Rightarrow> string" where
  "hex_upper bs =
     concat (map (\<lambda>b. [hex_upper_digits ! unat (drop_bit 4 b), hex_upper_digits ! unat (b AND 15)]) bs)"

definition fromHexChar :: "char \<Rightarrow> byte option" where
  "fromHexChar c = (let n = (of_char c :: nat) in
     if 48 \<le> n \<and> n \<le> 57 then Some (of_nat (n - 48))
     else if 97 \<le> n \<and> n \<le> 102 then Some (of_nat (n - 87))
     else if 65 \<le> n \<and> n \<le> 70 then Some (of_nat (n - 55))
     else None)"

datatype hex_error = InvalidByte char | OddLength

text \<open>\<open>hex.DecodeString\<close>: pairs from the left; an odd tail is checked for its digit first.\<close>

fun hex_DecodeString :: "string \<Rightarrow> hex_error + bytes" where
  "hex_DecodeString [] = Inr []"
| "hex_DecodeString [c] =
     (case fromHexChar c of None \<Rightarrow> Inl (InvalidByte c) | Some _ \<Rightarrow> Inl OddLength)"
| "hex_DecodeString (p # q # s) =
     (case fromHexChar p of
        None \<Rightarrow> Inl (InvalidByte p)
      | Some a \<Rightarrow>
         (case fromHexChar q of
            None \<Rightarrow> Inl (InvalidByte q)
          | Some b \<Rightarrow>
             (case hex_DecodeString s of
                Inl e \<Rightarrow> Inl e
              | Inr bs \<Rightarrow> Inr ((push_bit 4 a OR b) # bs))))"

text \<open>Conversions between a string and its bytes.\<close>

definition string_of_bytes :: "bytes \<Rightarrow> string" where
  "string_of_bytes bs = map (\<lambda>b. char_of (unat b)) bs"

definition bytes_of_string :: "string \<Rightarrow> bytes" where
  "bytes_of_string s = map (\<lambda>c. of_char c) s"

lemma length_bytes_of_string [simp]: "length (bytes_of_string s) = length s"
  by (simp add: bytes_of_string_def)

section \<open>Decimal numbers (strconv)\<close>

fun dec_digits :: "nat \<Rightarrow> string" where
  "dec_digits n =
     (if n < 10 then [''0123456789'' ! n] else dec_digits (n div 10) @ [''0123456789'' ! (n mod 10)])"

declare dec_digits.simps [simp del]

definition Itoa :: "int \<Rightarrow> string" where
  "Itoa i = (if i < 0 then CHR ''-'' # dec_digits (nat (- i)) else dec_digits (nat i))"

definition digit_val :: "char \<Rightarrow> nat option" where
  "digit_val c = (let n = (of_char c :: nat) in if 48 \<le> n \<and> n \<le> 57 then Some (n - 48) else None)"

fun digits_val :: "nat \<Rightarrow> string \<Rightarrow> nat option" where
  "digits_val acc [] = Some acc"
| "digits_val acc (c # s) =
     (case digit_val c of None \<Rightarrow> None | Some d \<Rightarrow> digits_val (acc * 10 + d) s)"

text \<open>\<open>ParseUint(s, 10, bits)\<close> and \<open>ParseInt(s, 10, 64)\<close>; an error of either kind is None.\<close>

definition ParseUint :: "nat \<Rightarrow> string \<Rightarrow> nat option" where
  "ParseUint bits s =
     (if s = [] then None
      else case digits_val 0 s of
        None \<Rightarrow> None
      | Some n \<Rightarrow> if n < 2 ^ bits then Some n else None)"

definition ParseInt64 :: "string \<Rightarrow> int option" where
  "ParseInt64 s =
     (case s of
        [] \<Rightarrow> None
      | c # r \<Rightarrow>
         (let neg = (c = CHR ''-''); t = (if c = CHR ''-'' \<or> c = CHR ''+'' then r else s)
          in case ParseUint 64 t of
               None \<Rightarrow> None
             | Some un \<Rightarrow>
                 if \<not> neg \<and> 2 ^ 63 \<le> un then None
                 else if neg \<and> 2 ^ 63 < un then None
                 else Some (if neg then - int un else int un)))"

definition ParseBool :: "string \<Rightarrow> bool option" where
  "ParseBool s =
     (if s \<in> {''1'', ''t'', ''T'', ''TRUE'', ''true'', ''True''} then Some True
      else if s \<in> {''0'', ''f'', ''F'', ''FALSE'', ''false'', ''False''} then Some False
      else None)"

section \<open>Trimming and replacing (strings)\<close>

text \<open>
  \<open>strings.TrimSpace\<close> on UTF-8 bytes: the encodings of the code points that
  \<open>unicode.IsSpace\<close> accepts.
\<close>

definition space_runes :: "string list" where
  "space_runes =
     [[CHR 0x09], [CHR 0x0A], [CHR 0x0B], [CHR 0x0C], [CHR 0x0D], [CHR 0x20],
      [CHR 0xC2, CHR 0x85], [CHR 0xC2, CHR 0xA0], [CHR 0xE1, CHR 0x9A, CHR 0x80],
      [CHR 0xE2, CHR 0x80, CHR 0x80], [CHR 0xE2, CHR 0x80, CHR 0x81], [CHR 0xE2, CHR 0x80, CHR 0x82],
      [CHR 0xE2, CHR 0x80, CHR 0x83], [CHR 0xE2, CHR 0x80, CHR 0x84], [CHR 0xE2, CHR 0x80, CHR 0x85],
      [CHR 0xE2, CHR 0x80, CHR 0x86], [CHR 0xE2, CHR 0x80, CHR 0x87], [CHR 0xE2, CHR 0x80, CHR 0x88],
      [CHR 0xE2, CHR 0x80, CHR 0x89], [CHR 0xE2, CHR 0x80, CHR 0x8A], [CHR 0xE2, CHR 0x80, CHR 0xA8],
      [CHR 0xE2, CHR 0x80, CHR 0xA9], [CHR 0xE2, CHR 0x80, CHR 0xAF], [CHR 0xE2, CHR 0x81, CHR 0x9F],
      [CHR 0xE3, CHR 0x80, CHR 0x80]]"

definition strip_prefix :: "string list \<Rightarrow> string \<Rightarrow> string option" where
  "strip_prefix ps s =
     (case find (\<lambda>p. take (length p) s = p) ps of None \<Rightarrow> None | Some p \<Rightarrow> Some (drop (length p) s))"

lemma strip_prefix_shorter:
  "\<forall>p \<in> set ps. p \<noteq> [] \<Longrightarrow> strip_prefix ps s = Some t \<Longrightarrow> length t < length s"
  by (auto simp: strip_prefix_def find_Some_iff split: option.splits)
    (metis drop_eq_Nil length_0_conv nth_mem take_eq_Nil2 linorder_not_le diff_less length_greater_0_conv length_drop)

lemma space_runes_nonempty: "\<forall>p \<in> set space_runes. p \<noteq> []"
  "\<forall>p \<in> set (map rev space_runes). p \<noteq> []"
  by (simp_all add: space_runes_def)

function trim_left :: "string list \<Rightarrow> string \<Rightarrow> string" where
  "trim_left ps s =
     (case strip_prefix (filter (\<lambda>p. p \<noteq> []) ps) s of None \<Rightarrow> s | Some t \<Rightarrow> trim_left ps t)"
  by pat_completeness auto
termination
  by (relation "measure (\<lambda>(ps, s). length s)") (auto dest: strip_prefix_shorter [rotated])

declare trim_left.simps [simp del]

definition TrimSpace :: "string \<Rightarrow> string" where
  "TrimSpace s = rev (trim_left (map rev space_runes) (rev (trim_left space_runes s)))"

text \<open>
  The replacer of \<open>mqttclient\<close>: at each position the separators and the prefixes 0x and 0X
  are dropped; what was dropped is not scanned again.
\<close>

fun strip_separators :: "string \<Rightarrow> string" where
  "strip_separators [] = []"
| "strip_separators (c # s) =
     (if c \<in> {CHR '' '', CHR 0x09, CHR 0x0A, CHR 0x0D, CHR '','', CHR '';'', CHR '':'', CHR ''-''}
      then strip_separators s
      else if c = CHR ''0'' \<and> s \<noteq> [] \<and> hd s \<in> {CHR ''x'', CHR ''X''}
      then strip_separators (tl s)
      else c # strip_separators s)"


section \<open>Lemmas on hexadecimal text\<close>

lemma nibble_cases:
  assumes "n < (16::nat)"
  obtains "n = 15" | "n = 14" | "n = 13" | "n = 12" | "n = 11" | "n = 10" | "n = 9" | "n = 8"
    | "n = 7" | "n = 6" | "n = 5" | "n = 4" | "n = 3" | "n = 2" | "n = 1" | "n = 0"
proof -
  have "n \<in> {15, 14, 13, 12, 11, 10, 9, 8, 7, 6, 5, 4, 3, 2, 1, 0}"
    using assms by (simp, arith)
  with that show thesis by blast
qed

lemma high_nibble_less [simp]: "unat (drop_bit 4 (b :: byte)) < 16"
  unfolding unat_drop_bit_eq by (simp add: drop_bit_eq_div div_less_iff_less_mult)

lemma low_nibble_less [simp]: "unat (b AND 15 :: byte) < 16"
  unfolding byte_and_15 unsigned_take_bit_eq by (simp add: take_bit_eq_mod)

lemma upper_nibble: "n < 16 \<Longrightarrow> upper_char (hex_lower_digits ! n) = hex_upper_digits ! n"
  by (erule nibble_cases)
    (simp_all add: upper_char_def hex_lower_digits_def hex_upper_digits_def char_of_def bit_0)

lemma fromHexChar_nibble [simp]: "n < 16 \<Longrightarrow> fromHexChar (hex_upper_digits ! n) = Some (of_nat n)"
  by (erule nibble_cases) (simp_all add: fromHexChar_def hex_upper_digits_def)

lemma hex_upper_Nil [simp]: "hex_upper [] = []"
  by (simp add: hex_upper_def)

lemma hex_upper_Cons:
  "hex_upper (b # bs) =
     hex_upper_digits ! unat (drop_bit 4 b) # hex_upper_digits ! unat (b AND 15) # hex_upper bs"
  by (simp add: hex_upper_def)

lemma hex_upper_eq_Nil_iff [simp]: "hex_upper bs = [] \<longleftrightarrow> bs = []"
  by (cases bs) (simp_all add: hex_upper_Cons)

lemma hex_upper_append: "hex_upper (xs @ ys) = hex_upper xs @ hex_upper ys"
  by (simp add: hex_upper_def)

lemma length_hex_upper [simp]: "length (hex_upper bs) = 2 * length bs"
  by (induction bs) (simp_all add: hex_upper_Cons)

lemma ToUpper_EncodeToString [simp]: "ToUpper (hex_EncodeToString bs) = hex_upper bs"
  by (induction bs)
    (simp_all add: ToUpper_def hex_EncodeToString_def hex_upper_def upper_nibble)

lemma hex_decode_upper [simp, codec_simps]: "hex_DecodeString (hex_upper bs) = Inr bs"
  by (induction bs) (simp_all add: hex_upper_Cons word8_nibbles)

lemma hex_upper_inj: "hex_upper xs = hex_upper ys \<Longrightarrow> xs = ys"
  using hex_decode_upper by (metis sum.inject(2))

lemma hex_decode_length: "hex_DecodeString s = Inr bs \<Longrightarrow> length s = 2 * length bs"
  by (induction s arbitrary: bs rule: hex_DecodeString.induct)
    (auto split: option.splits sum.splits)

lemma hex_digit_bounds:
  assumes "n < 16"
  shows "hex_upper_digits ! n \<noteq> CHR ''x''" "hex_upper_digits ! n \<noteq> CHR ''X''"
    "hex_upper_digits ! n \<notin>
      {CHR '' '', CHR 0x09, CHR 0x0A, CHR 0x0D, CHR '','', CHR '';'', CHR '':'', CHR ''-''}"
  using assms by (auto elim!: nibble_cases simp: hex_upper_digits_def)

lemma strip_separators_digit:
  assumes "n < 16" "m < 16"
  shows "strip_separators (hex_upper_digits ! n # hex_upper_digits ! m # s) =
    hex_upper_digits ! n # strip_separators (hex_upper_digits ! m # s)"
  using hex_digit_bounds [OF assms(1)] hex_digit_bounds [OF assms(2)] by auto

lemma hd_hex_upper: "bs \<noteq> [] \<Longrightarrow> \<exists>n < 16. hd (hex_upper bs) = hex_upper_digits ! n"
  by (cases bs) (auto simp: hex_upper_Cons intro!: exI)

lemma strip_separators_hex_upper [simp]: "strip_separators (hex_upper bs) = hex_upper bs"
proof (induction bs)
  case (Cons b bs)
  obtain n m where nm: "n = unat (drop_bit 4 b)" "m = unat (b AND 15)" "n < 16" "m < 16"
    by simp
  have "strip_separators (hex_upper_digits ! m # hex_upper bs) =
      hex_upper_digits ! m # strip_separators (hex_upper bs)"
  proof (cases bs)
    case Nil
    then show ?thesis using hex_digit_bounds [OF nm(4)] by auto
  next
    case (Cons c cs)
    then show ?thesis using nm(4) by (simp add: hex_upper_Cons strip_separators_digit del: strip_separators.simps)
  qed
  then show ?case
    using Cons nm by (simp add: hex_upper_Cons strip_separators_digit del: strip_separators.simps)
qed simp

lemma find_SomeD: "find P xs = Some x \<Longrightarrow> x \<in> set xs \<and> P x"
  by (induction xs) (auto split: if_splits)

definition no_space_ends :: "string \<Rightarrow> bool" where
  "no_space_ends s \<longleftrightarrow> s = [] \<or> (hd s \<notin> hd ` set space_runes \<and> last s \<notin> last ` set space_runes)"

lemma trim_left_stop:
  assumes "\<forall>p \<in> set ps. p \<noteq> []" "s \<noteq> []" "hd s \<notin> hd ` set ps"
  shows "trim_left ps s = s"
proof -
  have "take (length p) s \<noteq> p" if "p \<in> set ps" for p
    using that assms by (metis hd_take image_eqI length_greater_0_conv)
  then have "strip_prefix (filter (\<lambda>p. p \<noteq> []) ps) s = None"
    by (auto simp: strip_prefix_def find_None_iff split: option.splits dest!: find_Some_iff [THEN iffD1])
  then show ?thesis by (simp add: trim_left.simps [of ps s])
qed

lemma TrimSpace_id:
  assumes "no_space_ends s"
  shows "TrimSpace s = s"
proof (cases "s = []")
  case True
  have "trim_left ps [] = []" for ps
    by (subst trim_left.simps)
      (auto simp: strip_prefix_def split: option.splits
        dest!: find_SomeD)
  with True show ?thesis by (simp add: TrimSpace_def)
next
  case False
  with assms have "trim_left space_runes s = s"
    by (intro trim_left_stop space_runes_nonempty) (auto simp: no_space_ends_def)
  moreover have "trim_left (map rev space_runes) (rev s) = rev s"
    using False assms space_runes_nonempty(1)
    by (intro trim_left_stop space_runes_nonempty) (auto simp: no_space_ends_def hd_rev image_iff)
  ultimately show ?thesis by (simp add: TrimSpace_def)
qed

lemma hex_digit_no_space:
  "n < 16 \<Longrightarrow> hex_upper_digits ! n \<notin> hd ` set space_runes \<union> last ` set space_runes"
  by (erule nibble_cases) (simp_all add: hex_upper_digits_def space_runes_def)

lemma TrimSpace_hex_upper [simp]: "TrimSpace (hex_upper bs) = hex_upper bs"
proof (rule TrimSpace_id)
  show "no_space_ends (hex_upper bs)"
  proof (cases bs rule: rev_cases)
    case Nil
    then show ?thesis by (simp add: no_space_ends_def)
  next
    case (snoc cs c)
    then obtain n where "n < 16" "hd (hex_upper bs) = hex_upper_digits ! n"
      using hd_hex_upper [of bs] by blast
    moreover have "last (hex_upper bs) = hex_upper_digits ! unat (c AND 15)"
      using snoc by (simp add: hex_upper_append hex_upper_Cons)
    ultimately show ?thesis
      using hex_digit_no_space by (auto simp: no_space_ends_def)
  qed
qed

end
