(* ===== verification/ParamEntries.thy ===== *)
theory ParamEntries
  imports GoText
begin

text \<open>
  The table of settable parameters of \<open>config/param_table.go\<close>: each entry holds the
  two-byte parameter head and the current data of a fixed length.
\<close>

section \<open>The table and its operations\<close>

record Entry =
  Head16 :: u16
  Length :: int
  Data :: bytes

type_synonym entry_table = "Entry gomap"

definition le16_of :: "byte \<Rightarrow> byte \<Rightarrow> u16" where
  "le16_of a b = ucast a OR push_bit 8 (ucast b)"

definition entry_table_init :: entry_table where
  "entry_table_init =
     [(''Temperature'', \<lparr>Head16 = le16_of (push_bit 2 5 OR 0) 0, Length = 4, Data = [0, 0, 0, 0]\<rparr>),
      (''Humidity'', \<lparr>Head16 = le16_of (push_bit 2 9 OR 1) 0, Length = 1, Data = [0]\<rparr>)]"

datatype entry_error = UnknownParameter string | InvalidDataLength string

text \<open>Go's \<open>copy\<close>: as many bytes as both sides hold.\<close>

definition go_copy :: "bytes \<Rightarrow> bytes \<Rightarrow> bytes" where
  "go_copy dst src = (let n = min (length dst) (length src) in take n src @ drop n dst)"

definition UpdateData :: "string \<Rightarrow> bytes \<Rightarrow> entry_table \<Rightarrow> entry_error option \<times> entry_table" where
  "UpdateData name val t =
     (case mget t name of
        None \<Rightarrow> (Some (UnknownParameter name), t)
      | Some e \<Rightarrow>
          if int (length val) \<noteq> Length e then (Some (InvalidDataLength name), t)
          else (None, mput name (e\<lparr>Data := go_copy (Data e) val\<rparr>) t))"

definition packet_field :: "Entry \<Rightarrow> bytes" where
  "packet_field e = le16_put (Head16 e) @ go_copy (replicate (nat (Length e)) 0) (Data e)"

definition GetPacketFields :: "entry_table \<Rightarrow> bytes gomap" where
  "GetPacketFields t = map (\<lambda>(name, e). (name, packet_field e)) t"

definition GetEntryCopy :: "string \<Rightarrow> entry_table \<Rightarrow> entry_error + Entry" where
  "GetEntryCopy name t =
     (case mget t name of
        None \<Rightarrow> Inl (UnknownParameter name)
      | Some e \<Rightarrow>
          Inr \<lparr>Head16 = Head16 e, Length = Length e,
               Data = go_copy (replicate (length (Data e)) 0) (Data e)\<rparr>)"

section \<open>Well-formed tables\<close>

definition wf_entry :: "Entry \<Rightarrow> bool" where
  "wf_entry e \<longleftrightarrow> Length e = int (length (Data e))"

definition wf_entries :: "entry_table \<Rightarrow> bool" where
  "wf_entries t \<longleftrightarrow> wf_map t \<and> (\<forall>name e. mget t name = Some e \<longrightarrow> wf_entry e)"

lemma go_copy_same [simp]: "length src = length dst \<Longrightarrow> go_copy dst src = src"
  by (simp add: go_copy_def)

lemma GetEntryCopy_Inr: "GetEntryCopy name t = Inr e \<longleftrightarrow> mget t name = Some e"
  by (auto simp: GetEntryCopy_def split: option.splits)

lemma wf_entries_init: "wf_entries entry_table_init"
  by (auto simp: wf_entries_def wf_map_def entry_table_init_def wf_entry_def split: if_splits)

lemma wf_entries_get: "wf_entries t \<Longrightarrow> mget t name = Some e \<Longrightarrow> wf_entry e"
  by (simp add: wf_entries_def)

text \<open>An update of a settable parameter keeps the table well formed (every entry's
  data has its declared length); it succeeds exactly when the parameter exists and the
  length fits, and then the packet field of that parameter is its unchanged head followed
  by the new data while all other fields stay as they were; a refused update changes
  nothing.\<close>

theorem UpdateData_correct:
  assumes "wf_entries t" and "UpdateData name val t = (err, t')"
  shows "wf_entries t' \<and>
    (err = None \<longleftrightarrow> (\<exists>e. mget t name = Some e \<and> int (length val) = Length e)) \<and>
    (err \<noteq> None \<longrightarrow>
      t' = t) \<and>
    (err = None \<longrightarrow>
      mget (GetPacketFields t') name =
      map_option (\<lambda>e. le16_put (Head16 e) @ val) (mget t name)) \<and>
    (other \<noteq> name \<longrightarrow>
      mget (GetPacketFields t') other = mget (GetPacketFields t) other)"
proof (intro conjI impI)
  have fields: "mget (GetPacketFields u) n = map_option packet_field (mget u n)" for u n
    by (simp add: GetPacketFields_def map_of_map)
  show "wf_entries t'" "err = None \<longleftrightarrow> (\<exists>e. mget t name = Some e \<and> int (length val) = Length e)"
    "err \<noteq> None \<Longrightarrow> t' = t"
    "other \<noteq> name \<Longrightarrow> mget (GetPacketFields t') other = mget (GetPacketFields t) other"
    using assms by (auto simp: UpdateData_def wf_entries_def wf_entry_def mget_put fields
        split: option.splits if_splits)
  show "mget (GetPacketFields t') name = map_option (\<lambda>e. le16_put (Head16 e) @ val) (mget t name)"
    if "err = None"
    using assms that wf_entries_get [OF assms(1), of name]
    by (auto simp: UpdateData_def wf_entry_def mget_put fields packet_field_def
        split: option.splits if_splits)
qed

theorem UpdateData_correct_witness:
  "mget (GetPacketFields (snd (UpdateData ''Humidity'' [55] entry_table_init))) ''Humidity'' =
     Some (le16_put 37 @ [55])"
proof -
  have "UpdateData ''Humidity'' [55] entry_table_init =
      (None, snd (UpdateData ''Humidity'' [55] entry_table_init))"
    by (simp add: UpdateData_def entry_table_init_def)
  from UpdateData_correct [OF wf_entries_init this] show ?thesis
    by (simp add: entry_table_init_def le16_of_def)
qed

end
