(* ===== verification/FrameBuild.thy ===== *)
theory FrameBuild
  imports Crc16 ParamEntries
begin

text \<open>
  The builders of the downlink control frames (package \<open>frameparser\<close>, the files
  \<open>*_ctl.go\<close>) and the encoder of parameter items. A frame is the six bytes of the sensor
  ID, the head byte, the control byte, the content and the big-endian CRC-16 of all that.
\<close>

section \<open>Frame layout\<close>

definition head_byte :: "byte \<Rightarrow> byte \<Rightarrow> byte \<Rightarrow> byte" where
  "head_byte dataLen fragInd packetType =
     push_bit 4 (dataLen AND 0x0F) OR push_bit 3 (fragInd AND 0x01) OR (packetType AND 0x07)"

definition ctrl_byte :: "byte \<Rightarrow> byte \<Rightarrow> byte" where
  "ctrl_byte ctrlType requestSetFlag = push_bit 1 (ctrlType AND 0x7F) OR (requestSetFlag AND 0x01)"

definition with_crc :: "bytes \<Rightarrow> bytes" where
  "with_crc buf = buf @ be16_put (CRC16 buf)"

definition packetTypeControl :: byte where
  "packetTypeControl = 0x04"

datatype build_error =
    InvalidFlag byte
  | ParamCount nat
  | EntryError entry_error
  | MissingValue string
  | ValueLength string int nat

section \<open>The builders\<close>

definition BuildAlarmParameterQueryFrame :: "bytes \<Rightarrow> bytes" where
  "BuildAlarmParameterQueryFrame sensorID =
     with_crc (sensorID @ [head_byte 0x0F 0 0x04, ctrl_byte 0x03 0])"

definition BuildMonitoringDataQueryFrame :: "bytes \<Rightarrow> bytes" where
  "BuildMonitoringDataQueryFrame sensorID =
     with_crc (sensorID @ [head_byte 0x0F 0 0x04, ctrl_byte 0x02 0])"

definition BuildMonitoringDataQueryFrame1 :: "bytes \<Rightarrow> bytes" where
  "BuildMonitoringDataQueryFrame1 sensorID =
     with_crc (sensorID @ [head_byte 0x0F 0 0x04, ctrl_byte 0x02 0])"

definition BuildParameterQueryFrame :: "bytes \<Rightarrow> bytes" where
  "BuildParameterQueryFrame sensorID =
     with_crc (sensorID @ [head_byte 0x0F 0 0x04, ctrl_byte 0x01 0])"

definition BuildGeneralParamQueryFrame :: "bytes \<Rightarrow> u16 \<Rightarrow> bytes" where
  "BuildGeneralParamQueryFrame sensorID paramType14 =
     with_crc (sensorID @ [head_byte 0x01 0 0x04, ctrl_byte 0x02 0] @ [0x20, 0x00])"

definition BuildResetRequest :: "bytes \<Rightarrow> bytes" where
  "BuildResetRequest sensorID = with_crc (sensorID @ [head_byte 0 0 0x04, ctrl_byte 0x06 0])"

definition BuildTimeParamFrame :: "bytes \<Rightarrow> byte \<Rightarrow> u32 \<Rightarrow> build_error + bytes" where
  "BuildTimeParamFrame sensorID requestSetFlag timestamp =
     (if requestSetFlag \<noteq> 0 \<and> requestSetFlag \<noteq> 1 then Inl (InvalidFlag requestSetFlag)
      else Inr (with_crc
        (sensorID @ [head_byte 0 0 packetTypeControl, ctrl_byte 0x04 requestSetFlag]
         @ le32_put timestamp)))"

definition BuildSensorIDFrame :: "bytes \<Rightarrow> byte \<Rightarrow> bytes \<Rightarrow> build_error + bytes" where
  "BuildSensorIDFrame sensorID requestSetFlag newID =
     (if requestSetFlag \<noteq> 0 \<and> requestSetFlag \<noteq> 1 then Inl (InvalidFlag requestSetFlag)
      else Inr (with_crc
        (sensorID @ [head_byte 0 0 packetTypeControl,
           (let ctrlByte = push_bit 1 (0x05 AND 0x7F)
            in if requestSetFlag = 1 then ctrlByte OR 0x01 else ctrlByte)]
         @ newID)))"

definition maxParams :: nat where
  "maxParams = 16"

fun param_list :: "entry_table \<Rightarrow> bytes gomap \<Rightarrow> string list \<Rightarrow> build_error + bytes" where
  "param_list t paramsMap [] = Inr []"
| "param_list t paramsMap (name # names) =
     (case GetEntryCopy name t of
        Inl e \<Rightarrow> Inl (EntryError e)
      | Inr entry \<Rightarrow>
          (case mget paramsMap name of
             None \<Rightarrow> Inl (MissingValue name)
           | Some val \<Rightarrow>
               if int (length val) \<noteq> Length entry
               then Inl (ValueLength name (Length entry) (length val))
               else (case param_list t paramsMap names of
                   Inl e \<Rightarrow> Inl e
                 | Inr rest \<Rightarrow>
                     Inr (le16_put (Head16 entry) @ go_copy (replicate (nat (Length entry)) 0) val @ rest))))"

definition BuildGeneralParamFrame ::
    "entry_table \<Rightarrow> bytes \<Rightarrow> byte \<Rightarrow> string list \<Rightarrow> bytes gomap \<Rightarrow> build_error + bytes" where
  "BuildGeneralParamFrame t sensorID requestSetFlag paramsOrder paramsMap =
     (let m = length paramsOrder;
          parameterList =
            (if requestSetFlag = 0 then Inr (0x0F, [])
             else if m = 0 \<or> m > maxParams then Inl (ParamCount m)
             else case param_list t paramsMap paramsOrder of
                 Inl e \<Rightarrow> Inl e
               | Inr l \<Rightarrow> Inr (of_nat m AND 0x0F, l))
      in case parameterList of
           Inl e \<Rightarrow> Inl e
         | Inr (dataLen, l) \<Rightarrow>
             Inr (with_crc
               (sensorID @ [push_bit 4 (dataLen AND 0x0F) OR (packetTypeControl AND 0x07),
                  ctrl_byte 0x03 requestSetFlag]
                @ (if requestSetFlag = 1 then l else []))))"

section \<open>Parameter items\<close>

definition EncodeParamEntry :: "u16 \<Rightarrow> byte \<Rightarrow> bytes \<Rightarrow> bytes" where
  "EncodeParamEntry paramType lenFlag data =
     (let paramType14 = paramType AND 0x3FFF;
          head16 = push_bit 2 paramType14 OR ucast (lenFlag AND 0x03);
          out = le16_put head16;
          n = length data
      in if lenFlag AND 0x03 = 0 then
           out @ (if n \<noteq> 4 then [0x00, 0x00, 0x00, 0x00] else data)
         else if lenFlag AND 0x03 = 1 then out @ [of_nat n AND 0xFF] @ data
         else if lenFlag AND 0x03 = 2 then out @ le16_put (of_nat n) @ data
         else out @ [of_nat (n div 65536) AND 0xFF, of_nat (n div 256) AND 0xFF, of_nat n AND 0xFF] @ data)"

section \<open>What a receiver sees\<close>

text \<open>
  The fields a receiver of a control frame reads: sensor ID, number of parameters, control
  type, the set flag, the content, an unfragmented head with packet type 4, and the
  checksum over everything before it.
\<close>

definition control_frame :: "bytes \<Rightarrow> nat \<Rightarrow> nat \<Rightarrow> bool \<Rightarrow> bytes \<Rightarrow> bytes \<Rightarrow> bool" where
  "control_frame sid n ctrl isset content fr \<longleftrightarrow>
     (let payload = take (length fr - 2) fr in
      9 \<le> length fr \<and> take 6 fr = sid \<and>
      unat (drop_bit 4 (fr ! 6)) = n \<and> drop_bit 3 (fr ! 6) AND 0x1 = 0 \<and> fr ! 6 AND 0x07 = 4 \<and>
      unat (drop_bit 1 (fr ! 7)) = ctrl \<and> (fr ! 7 AND 0x1 = (if isset then 1 else 0)) \<and>
      drop 8 payload = content \<and>
      be16_get (drop (length fr - 2) fr) = Done (CRC16 payload))"

lemma with_crc_parts:
  "take (length (with_crc buf) - 2) (with_crc buf) = buf"
  "be16_get (drop (length (with_crc buf) - 2) (with_crc buf)) = Done (CRC16 buf)"
  "length (with_crc buf) = length buf + 2"
  by (simp_all add: with_crc_def)

lemma control_frame_with_crc:
  assumes "length sid = 6"
    and "unat (drop_bit 4 h) = n" "drop_bit 3 h AND 0x1 = 0" "h AND 0x07 = 4"
    and "unat (drop_bit 1 c) = ctrl" "c AND 0x1 = (if isset then 1 else 0)"
  shows "control_frame sid n ctrl isset content (with_crc (sid @ [h, c] @ content))"
  unfolding control_frame_def with_crc_parts Let_def
  using assms by (auto simp: with_crc_def nth_append)

lemmas control_frame_cons = control_frame_with_crc [unfolded append.simps]

text \<open>C23: for a six-byte sensor ID every builder makes a frame a receiver accepts: the
  sensor ID first, an unfragmented control head, the control type, set flag, parameter
  count and content of the request, and a matching checksum; the two builders with a
  request flag reject every flag other than 0 and 1.\<close>

theorem builders_make_control_frames:
  assumes "length sid = 6"
  shows "control_frame sid 15 3 False [] (BuildAlarmParameterQueryFrame sid) \<and>
    control_frame sid 15 2 False [] (BuildMonitoringDataQueryFrame sid) \<and>
    control_frame sid 15 2 False [] (BuildMonitoringDataQueryFrame1 sid) \<and>
    control_frame sid 15 1 False [] (BuildParameterQueryFrame sid) \<and>
    control_frame sid 1 2 False [0x20, 0x00] (BuildGeneralParamQueryFrame sid ty) \<and>
    control_frame sid 0 6 False [] (BuildResetRequest sid) \<and>
    (case BuildTimeParamFrame sid flag ts of
        Inr fr \<Rightarrow> flag \<in> {0, 1} \<and> control_frame sid 0 4 (flag = 1) (le32_put ts) fr
      | Inl e \<Rightarrow> flag \<notin> {0, 1} \<and> e = InvalidFlag flag) \<and>
    (case BuildSensorIDFrame sid flag newID of
        Inr fr \<Rightarrow> flag \<in> {0, 1} \<and> control_frame sid 0 5 (flag = 1) newID fr
      | Inl e \<Rightarrow> flag \<notin> {0, 1} \<and> e = InvalidFlag flag)"
proof (intro conjI)
  note defs = BuildAlarmParameterQueryFrame_def BuildMonitoringDataQueryFrame_def
    BuildMonitoringDataQueryFrame1_def BuildParameterQueryFrame_def BuildResetRequest_def
    head_byte_def ctrl_byte_def
  show "control_frame sid 15 3 False [] (BuildAlarmParameterQueryFrame sid)"
    "control_frame sid 15 2 False [] (BuildMonitoringDataQueryFrame sid)"
    "control_frame sid 15 2 False [] (BuildMonitoringDataQueryFrame1 sid)"
    "control_frame sid 15 1 False [] (BuildParameterQueryFrame sid)"
    "control_frame sid 0 6 False [] (BuildResetRequest sid)"
    using control_frame_with_crc [OF assms, where content = "[]"] by (simp_all add: defs)
  show "control_frame sid 1 2 False [0x20, 0x00] (BuildGeneralParamQueryFrame sid ty)"
    unfolding BuildGeneralParamQueryFrame_def append_assoc
    by (rule control_frame_with_crc [OF assms]) (simp_all add: head_byte_def ctrl_byte_def)
  show "case BuildTimeParamFrame sid flag ts of
        Inr fr \<Rightarrow> flag \<in> {0, 1} \<and> control_frame sid 0 4 (flag = 1) (le32_put ts) fr
      | Inl e \<Rightarrow> flag \<notin> {0, 1} \<and> e = InvalidFlag flag"
    unfolding BuildTimeParamFrame_def append_assoc
    by (auto intro!: control_frame_cons [OF assms]
        simp: head_byte_def ctrl_byte_def packetTypeControl_def)
  show "case BuildSensorIDFrame sid flag newID of
        Inr fr \<Rightarrow> flag \<in> {0, 1} \<and> control_frame sid 0 5 (flag = 1) newID fr
      | Inl e \<Rightarrow> flag \<notin> {0, 1} \<and> e = InvalidFlag flag"
    unfolding BuildSensorIDFrame_def append_assoc
    by (auto intro!: control_frame_cons [OF assms]
        simp: head_byte_def ctrl_byte_def packetTypeControl_def)
qed

theorem builders_make_control_frames_witness:
  "control_frame [0x23, 0x8A, 0x08, 0x41, 0xD8, 0x28] 0 6 False []
     (BuildResetRequest [0x23, 0x8A, 0x08, 0x41, 0xD8, 0x28])"
  using builders_make_control_frames [of "[0x23, 0x8A, 0x08, 0x41, 0xD8, 0x28]"] by simp

subsection \<open>The general parameter frame\<close>

definition param_ok :: "entry_table \<Rightarrow> bytes gomap \<Rightarrow> string \<Rightarrow> bool" where
  "param_ok t paramsMap name \<longleftrightarrow>
     (\<exists>e v. mget t name = Some e \<and> mget paramsMap name = Some v \<and> int (length v) = Length e)"

definition param_field :: "entry_table \<Rightarrow> bytes gomap \<Rightarrow> string \<Rightarrow> bytes" where
  "param_field t paramsMap name =
     le16_put (Head16 (the (mget t name))) @ the (mget paramsMap name)"

lemma param_list_ok:
  "list_all (param_ok t pm) names \<Longrightarrow> param_list t pm names = Inr (concat (map (param_field t pm) names))"
proof (induction names)
  case (Cons name names)
  then obtain e v where e: "mget t name = Some e" "mget pm name = Some v" "int (length v) = Length e"
    by (auto simp: param_ok_def)
  then have "GetEntryCopy name t = Inr e" by (simp add: GetEntryCopy_Inr)
  moreover have "nat (Length e) = length v" using e(3) by linarith
  ultimately show ?case using Cons e by (simp add: param_field_def)
qed simp

lemma param_list_error:
  "\<not> list_all (param_ok t pm) names \<Longrightarrow> \<exists>e. param_list t pm names = Inl e"
proof (induction names)
  case (Cons name names)
  then show ?case
  proof (cases "param_ok t pm name")
    case True
    then show ?thesis using Cons by (auto split: sum.splits option.splits)
  next
    case False
    then show ?thesis
      by (auto simp: param_ok_def GetEntryCopy_Inr split: sum.splits option.splits)
  qed
qed simp

lemma count_head:
  assumes "n \<le> (16 :: nat)"
  shows "unat (drop_bit 4 (push_bit 4 (of_nat n AND 0x0F AND 0x0F) OR (0x04 AND 0x07) :: byte)) = n mod 16"
    and "drop_bit 3 (push_bit 4 (of_nat n AND 0x0F AND 0x0F) OR (0x04 AND 0x07) :: byte) AND 0x1 = 0"
    and "(push_bit 4 (of_nat n AND 0x0F AND 0x0F) OR (0x04 AND 0x07) :: byte) AND 0x07 = 4"
proof -
  consider "n = 16" | "n < 16" using assms by linarith
  then show "unat (drop_bit 4 (push_bit 4 (of_nat n AND 0x0F AND 0x0F) OR (0x04 AND 0x07) :: byte)) = n mod 16"
    by cases (simp, erule nibble_cases, simp_all)
  from \<open>n \<le> 16\<close> consider "n = 16" | "n < 16" by linarith
  then show "drop_bit 3 (push_bit 4 (of_nat n AND 0x0F AND 0x0F) OR (0x04 AND 0x07) :: byte) AND 0x1 = 0"
    by cases (simp, erule nibble_cases, simp_all)
  from \<open>n \<le> 16\<close> consider "n = 16" | "n < 16" by linarith
  then show "(push_bit 4 (of_nat n AND 0x0F AND 0x0F) OR (0x04 AND 0x07) :: byte) AND 0x07 = 4"
    by cases (simp, erule nibble_cases, simp_all)
qed

text \<open>C24: a general parameter request with flag 1 is built exactly when one to
  sixteen known parameters are named, each with a value of its declared length, and the
  frame then carries their heads and values in the given order; its count field holds the
  number of parameters modulo sixteen. A query (flag 0) is always built and carries no
  list.\<close>

theorem BuildGeneralParamFrame_correct:
  assumes "length sid = 6"
  shows "(case BuildGeneralParamFrame t sid 1 names pm of
      Inr fr \<Rightarrow> names \<noteq> [] \<and> length names \<le> 16 \<and> list_all (param_ok t pm) names \<and>
        control_frame sid (length names mod 16) 3 True (concat (map (param_field t pm) names)) fr
    | Inl e \<Rightarrow> names = [] \<or> 16 < length names \<or> \<not> list_all (param_ok t pm) names) \<and>
    (\<exists>fr. BuildGeneralParamFrame t sid 0 names pm = Inr fr \<and> control_frame sid 15 3 False [] fr)"
proof (intro conjI)
  let ?ok = "names \<noteq> [] \<and> length names \<le> 16 \<and> list_all (param_ok t pm) names"
  let ?l = "concat (map (param_field t pm) names)"
  let ?h = "push_bit 4 (of_nat (length names) AND 0x0F AND 0x0F) OR (0x04 AND 0x07) :: byte"
  show "case BuildGeneralParamFrame t sid 1 names pm of
      Inr fr \<Rightarrow> names \<noteq> [] \<and> length names \<le> 16 \<and> list_all (param_ok t pm) names \<and>
        control_frame sid (length names mod 16) 3 True ?l fr
    | Inl e \<Rightarrow> names = [] \<or> 16 < length names \<or> \<not> list_all (param_ok t pm) names"
  proof (cases ?ok)
    case True
    then have built: "BuildGeneralParamFrame t sid 1 names pm =
        Inr (with_crc (sid @ [?h, ctrl_byte 0x03 1] @ ?l))"
      by (simp add: BuildGeneralParamFrame_def param_list_ok maxParams_def packetTypeControl_def Let_def)
    have "control_frame sid (length names mod 16) 3 True ?l
        (with_crc (sid @ [?h, ctrl_byte 0x03 1] @ ?l))"
      using True by (intro control_frame_with_crc [OF assms] count_head) (simp_all add: ctrl_byte_def)
    with built True show ?thesis by simp
  next
    case False
    then show ?thesis using param_list_error [of t pm names]
      by (auto simp: BuildGeneralParamFrame_def maxParams_def Let_def split: sum.splits)
  qed
  have "control_frame sid 15 3 False [] (with_crc (sid @ [push_bit 4 (0x0F AND 0x0F) OR (0x04 AND 0x07), ctrl_byte 0x03 0] @ []))"
    by (rule control_frame_with_crc [OF assms]) (simp_all add: ctrl_byte_def)
  then show "\<exists>fr. BuildGeneralParamFrame t sid 0 names pm = Inr fr \<and> control_frame sid 15 3 False [] fr"
    by (simp add: BuildGeneralParamFrame_def packetTypeControl_def)
qed

theorem BuildGeneralParamFrame_correct_witness:
  "\<exists>fr. BuildGeneralParamFrame entry_table_init [1, 2, 3, 4, 5, 6] 0 [] [] = Inr fr \<and>
     control_frame [1, 2, 3, 4, 5, 6] 15 3 False [] fr"
  using BuildGeneralParamFrame_correct [of "[1, 2, 3, 4, 5, 6]"
      "[]" entry_table_init "[]"] by simp

text \<open>With sixteen parameters, the maximum the builder lets through, the four-bit
  count field of the frame reads zero although sixteen items follow.\<close>

theorem general_frame_sixteen_parameters:
  assumes "length sid = 6" "length names = 16" "list_all (param_ok t pm) names"
  shows "\<exists>fr. BuildGeneralParamFrame t sid 1 names pm = Inr fr \<and>
    control_frame sid 0 3 True (concat (map (param_field t pm) names)) fr"
proof -
  let ?l = "concat (map (param_field t pm) names)"
  let ?h = "push_bit 4 (of_nat (length names) AND 0x0F AND 0x0F) OR (0x04 AND 0x07) :: byte"
  have "BuildGeneralParamFrame t sid 1 names pm = Inr (with_crc (sid @ [?h, ctrl_byte 0x03 1] @ ?l))"
    using assms(2,3)
    by (auto simp: BuildGeneralParamFrame_def param_list_ok maxParams_def packetTypeControl_def)
  moreover have "control_frame sid 0 3 True ?l (with_crc (sid @ [?h, ctrl_byte 0x03 1] @ ?l))"
    by (rule control_frame_with_crc [OF assms(1)]) (simp_all add: assms(2) ctrl_byte_def)
  ultimately show ?thesis by blast
qed

theorem general_frame_sixteen_parameters_witness:
  "\<exists>fr. BuildGeneralParamFrame entry_table_init [1, 2, 3, 4, 5, 6] 1 (replicate 16 ''Humidity'')
      [(''Humidity'', [55])] = Inr fr \<and>
    control_frame [1, 2, 3, 4, 5, 6] 0 3 True
      (concat (map (param_field entry_table_init [(''Humidity'', [55])]) (replicate 16 ''Humidity''))) fr"
  by (rule general_frame_sixteen_parameters)
    (simp_all add: list_all_iff param_ok_def entry_table_init_def)

end
