(* ===== verification/ParamValues.thy ===== *)
theory ParamValues
  imports GoText
begin

text \<open>
  The runtime values of the device service and the parsers of
  \<open>config/param_table_parser_data.go\<close> that make them from the bytes of a parameter:
  the scalar parsers, the two array parsers, and the topology parser.
\<close>

section \<open>Values\<close>

text \<open>\<open>config.NodeTopology\<close>.\<close>

record NodeTopology =
  nt_EID :: string
  nt_Type :: string
  nt_State :: string
  nt_Parent :: string

text \<open>
  Go's \<open>interface{}\<close>, with the dynamic types the program stores or inspects. A float is
  its IEEE bit pattern; an \<open>int\<close> has 64 bits.
\<close>

datatype gvalue =
    VNil
  | VBool bool
  | VInt u64 | VInt8 byte | VInt16 u16 | VInt32 u32 | VInt64 u64
  | VUint u64 | VUint8 byte | VUint16 u16 | VUint32 u32 | VUint64 u64
  | VFloat32 u32 | VFloat64 u64
  | VString string
  | VBytes bytes
  | VFloat32s "u32 list"
  | VUint16s "u16 list"
  | VTopo "NodeTopology list"
  | VObject "(string \<times> gvalue) list"

datatype parse_error =
    WantBytes nat nat
  | NotMultipleOf nat nat
  | TopoNoStart
  | TopoMissingComma nat
  | TopoMissingState
  | TopoMissingType
  | TopoMissingParent

type_synonym parsed = "(parse_error + gvalue) outcome"

section \<open>Scalar and array parsers\<close>

definition parseFloat32 :: "bytes \<Rightarrow> parsed" where
  "parseFloat32 data =
     (if length data \<noteq> 4 then Done (Inl (WantBytes 4 (length data)))
      else obind (le32_get data) (\<lambda>bits. Done (Inr (VFloat32 bits))))"

definition parseUint8 :: "bytes \<Rightarrow> parsed" where
  "parseUint8 data =
     (if length data \<noteq> 1 then Done (Inl (WantBytes 1 (length data)))
      else Done (Inr (VUint8 (data ! 0))))"

definition parseUint16 :: "bytes \<Rightarrow> parsed" where
  "parseUint16 data =
     (if length data \<noteq> 2 then Done (Inl (WantBytes 2 (length data)))
      else obind (le16_get data) (\<lambda>v. Done (Inr (VUint16 v))))"

definition parseUint32 :: "bytes \<Rightarrow> parsed" where
  "parseUint32 data =
     (if length data \<noteq> 4 then Done (Inl (WantBytes 4 (length data)))
      else obind (le32_get data) (\<lambda>v. Done (Inr (VUint32 v))))"

definition parsefloat32Array :: "bytes \<Rightarrow> parsed" where
  "parsefloat32Array data =
     (if length data mod 4 \<noteq> 0 then Done (Inl (NotMultipleOf 4 (length data)))
      else let n = length data div 4
        in obind (omap (\<lambda>i. le32_get (take 4 (drop (i * 4) data))) [0..<n])
             (\<lambda>samples. Done (Inr (VFloat32s samples))))"

definition parseUint16Array :: "bytes \<Rightarrow> parsed" where
  "parseUint16Array data =
     (if length data mod 2 \<noteq> 0 then Done (Inl (NotMultipleOf 2 (length data)))
      else let n = length data div 2
        in obind (omap (\<lambda>i. le16_get (take 2 (drop (i * 2) data))) [0..<n])
             (\<lambda>values. Done (Inr (VUint16s values))))"

definition parseInt16 :: "bytes \<Rightarrow> parsed" where
  "parseInt16 data =
     (if length data \<noteq> 2 then Done (Inl (WantBytes 2 (length data)))
      else obind (le16_get data) (\<lambda>u. Done (Inr (VInt16 u))))"

section \<open>The topology parser\<close>

text \<open>Every index below is guarded by the length checks of the code.\<close>

definition looksLikeNode :: "bytes \<Rightarrow> nat \<Rightarrow> bool" where
  "looksLikeNode data i \<longleftrightarrow>
     i + 16 \<le> length data \<and> data ! (i + 6) = 0x2C \<and> data ! (i + 8) = 0x2C \<and> data ! (i + 10) = 0x2C"

function find_start :: "bytes \<Rightarrow> nat \<Rightarrow> nat" where
  "find_start data i =
     (if i < length data \<and> \<not> looksLikeNode data i then find_start data (i + 1) else i)"
  by pat_completeness auto
termination
  by (relation "measure (\<lambda>(data, i). length data - i)") auto

declare find_start.simps [simp del]

definition toHex12 :: "bytes \<Rightarrow> string" where
  "toHex12 b = hex_upper (take 6 b)"

text \<open>One pass of the loop body up to the optional separator.\<close>

definition read_node :: "bytes \<Rightarrow> nat \<Rightarrow> parse_error + (NodeTopology \<times> nat)" where
  "read_node data i =
     (let n = length data; eid = take 6 (drop i data); i = i + 6 in
      if n \<le> i \<or> data ! i \<noteq> 0x2C then Inl (TopoMissingComma 1) else
      let i = i + 1 in
      if n \<le> i then Inl TopoMissingState else
      let stateByte = data ! i; i = i + 1 in
      if n \<le> i \<or> data ! i \<noteq> 0x2C then Inl (TopoMissingComma 2) else
      let i = i + 1 in
      if n \<le> i then Inl TopoMissingType else
      let typeByte = data ! i; i = i + 1 in
      if n \<le> i \<or> data ! i \<noteq> 0x2C then Inl (TopoMissingComma 3) else
      let i = i + 1 in
      if n < i + 6 then Inl TopoMissingParent else
      let parent = take 6 (drop i data); i = i + 6 in
      Inr (\<lparr>nt_EID = toHex12 eid, nt_Type = Itoa (uint typeByte), nt_State = Itoa (uint stateByte),
            nt_Parent = toHex12 parent\<rparr>, i))"

lemma read_node_advances: "read_node data i = Inr (nd, j) \<Longrightarrow> j = i + 17"
  by (auto simp: read_node_def Let_def split: if_splits)

function topo_loop :: "bytes \<Rightarrow> nat \<Rightarrow> NodeTopology list \<Rightarrow> parse_error + NodeTopology list" where
  "topo_loop data i acc =
     (if i < length data then
        if \<not> looksLikeNode data i then Inr acc
        else case read_node data i of
            Inl e \<Rightarrow> Inl e
          | Inr (nd, j) \<Rightarrow>
              if j < length data \<and> data ! j = 0x24 then topo_loop data (j + 1) (acc @ [nd])
              else if j < length data \<and> looksLikeNode data j then topo_loop data j (acc @ [nd])
              else Inr (acc @ [nd])
      else Inr acc)"
  by pat_completeness auto
termination
  by (relation "measure (\<lambda>(data, i, acc). length data - i)") (auto dest!: read_node_advances)

declare topo_loop.simps [simp del]

definition parseTopo :: "bytes \<Rightarrow> parse_error + NodeTopology list" where
  "parseTopo data =
     (let i = find_start data 0 in
      if length data \<le> i then Inl TopoNoStart else topo_loop data i [])"

section \<open>Behaviour of the parsers\<close>

lemma scalar_parsers:
  "parseFloat32 (le32_put w) = Done (Inr (VFloat32 w))"
  "parseUint32 (le32_put w) = Done (Inr (VUint32 w))"
  "parseUint16 (le16_put v) = Done (Inr (VUint16 v))"
  "parseInt16 (le16_put v) = Done (Inr (VInt16 v))"
  "parseUint8 [b] = Done (Inr (VUint8 b))"
  by (simp_all add: parseFloat32_def parseUint32_def parseUint16_def parseInt16_def parseUint8_def)

lemma concat_put_length:
  "length (concat (map le32_put ws)) = 4 * length ws"
  "length (concat (map le16_put vs)) = 2 * length vs"
  by (induction ws, simp_all, induction vs, simp_all)

text \<open>The array parsers read back any array of 32-bit float patterns or
  16-bit integers from its little-endian layout.\<close>

theorem array_parsers_roundtrip:
  "parsefloat32Array (concat (map le32_put ws)) = Done (Inr (VFloat32s ws)) \<and>
   parseUint16Array (concat (map le16_put vs)) = Done (Inr (VUint16s vs))"
  using le32.array_get_put [of ws] le16.array_get_put [of vs]
  by (simp add: parsefloat32Array_def parseUint16Array_def concat_put_length)

text \<open>No parser panics, whatever the bytes.\<close>

lemma scalar_parsers_return:
  "returns (parseFloat32 d)" "returns (parseUint8 d)" "returns (parseUint16 d)"
  "returns (parseUint32 d)" "returns (parseInt16 d)"
  using le32_get_Done [of d] le16_get_Done [of d]
  by (auto simp: parseFloat32_def parseUint8_def parseUint16_def parseUint32_def parseInt16_def)

lemma array_parsers_return: "returns (parsefloat32Array d)" "returns (parseUint16Array d)"
  using le32.array_returns [of "length d div 4" d] le16.array_returns [of "length d div 2" d]
  by (auto simp: parsefloat32Array_def parseUint16Array_def Let_def returns_iff)


section \<open>The topology codec\<close>

text \<open>
  The layout the parser documents: six bytes of EID, the state byte, the type byte and six
  bytes of the parent, separated by commas, the nodes separated by a dollar sign.
\<close>

record wire_node =
  w_eid :: bytes
  w_state :: byte
  w_type :: byte
  w_parent :: bytes

definition wf_wire :: "wire_node \<Rightarrow> bool" where
  "wf_wire w \<longleftrightarrow> length (w_eid w) = 6 \<and> length (w_parent w) = 6"

definition enc_node :: "wire_node \<Rightarrow> bytes" where
  "enc_node w = w_eid w @ [0x2C, w_state w, 0x2C, w_type w, 0x2C] @ w_parent w"

fun enc_topo :: "wire_node list \<Rightarrow> bytes" where
  "enc_topo [] = []"
| "enc_topo [w] = enc_node w"
| "enc_topo (w # ws) = enc_node w @ [0x24] @ enc_topo ws"

definition node_of :: "wire_node \<Rightarrow> NodeTopology" where
  "node_of w = \<lparr>nt_EID = hex_upper (w_eid w), nt_Type = Itoa (uint (w_type w)),
     nt_State = Itoa (uint (w_state w)), nt_Parent = hex_upper (w_parent w)\<rparr>"

lemma length_enc_node: "wf_wire w \<Longrightarrow> length (enc_node w) = 17"
  by (simp add: wf_wire_def enc_node_def)

lemma six_elems:
  assumes "length xs = 6"
  obtains a b c d e f where "xs = [a, b, c, d, e, f]"
  using assms by (auto simp: numeral_eq_Suc length_Suc_conv)

lemma looksLikeNode_enc: "wf_wire w \<Longrightarrow> looksLikeNode (pre @ enc_node w @ post) (length pre)"
  by (auto simp: wf_wire_def enc_node_def looksLikeNode_def nth_append elim!: six_elems)

lemma read_node_enc:
  "wf_wire w \<Longrightarrow>
   read_node (pre @ enc_node w @ post) (length pre) = Inr (node_of w, length pre + 17)"
  by (auto simp: wf_wire_def enc_node_def read_node_def node_of_def toHex12_def nth_append Let_def
      elim!: six_elems)

text \<open>Nodes that are each followed by the separator are consumed one after the other.\<close>

definition enc_seq :: "wire_node list \<Rightarrow> bytes" where
  "enc_seq ws = concat (map (\<lambda>w. enc_node w @ [0x24]) ws)"

lemma enc_topo_snoc: "enc_topo (ws @ [w]) = enc_seq ws @ enc_node w"
proof (induction ws)
  case (Cons v ws)
  then show ?case by (cases "ws @ [w]") (simp_all add: enc_seq_def)
qed (simp add: enc_seq_def)

lemma topo_loop_seq:
  "list_all wf_wire ws \<Longrightarrow>
   topo_loop (pre @ enc_seq ws @ tail) (length pre) acc =
   topo_loop (pre @ enc_seq ws @ tail) (length (pre @ enc_seq ws)) (acc @ map node_of ws)"
proof (induction ws arbitrary: pre acc)
  case (Cons w ws)
  then have wf: "wf_wire w" and rest: "list_all wf_wire ws" by auto
  note lw = length_enc_node [OF wf]
  let ?post = "0x24 # enc_seq ws @ tail"
  have "topo_loop (pre @ enc_node w @ ?post) (length pre) acc =
      topo_loop (pre @ enc_node w @ ?post) (length (pre @ enc_node w @ [0x24])) (acc @ [node_of w])"
    using looksLikeNode_enc [OF wf, of pre ?post] read_node_enc [OF wf, of pre ?post] lw
    by (simp add: topo_loop.simps [of _ "length pre"] nth_append add.commute)
  also have "\<dots> = topo_loop ((pre @ enc_node w @ [0x24]) @ enc_seq ws @ tail)
      (length (pre @ enc_node w @ [0x24])) (acc @ [node_of w])"
    by simp
  finally show ?case
    using Cons.IH [OF rest, of "pre @ enc_node w @ [0x24]" "acc @ [node_of w]"]
    by (simp add: enc_seq_def)
qed (simp add: enc_seq_def)

lemma topo_loop_last:
  assumes "wf_wire w"
  shows "topo_loop (pre @ enc_node w) (length pre) acc = Inr (acc @ [node_of w])"
  using looksLikeNode_enc [OF assms, of pre "[]"] read_node_enc [OF assms, of pre "[]"]
    length_enc_node [OF assms]
  by (simp add: topo_loop.simps [of _ "length pre"])

lemma topo_loop_truncated:
  assumes "wf_wire w"
  shows "topo_loop (pre @ butlast (enc_node w)) (length pre) acc = Inl TopoMissingParent"
proof -
  obtain w' where w': "w_parent w = w' @ [last (w_parent w)]"
    using assms by (metis wf_wire_def append_butlast_last_id list.size(3) zero_neq_numeral)
  then have b: "butlast (enc_node w) = w_eid w @ [0x2C, w_state w, 0x2C, w_type w, 0x2C] @ w'"
    by (metis append.assoc butlast_snoc enc_node_def)
  moreover have "length (w_parent w) = Suc (length w')"
    by (subst w') simp
  then have "length w' = 5" using assms by (simp add: wf_wire_def)
  ultimately have "looksLikeNode (pre @ butlast (enc_node w)) (length pre)"
    "read_node (pre @ butlast (enc_node w)) (length pre) = Inl TopoMissingParent"
    using assms by (auto simp: looksLikeNode_def read_node_def nth_append Let_def wf_wire_def
        elim!: six_elems)
  then show ?thesis
    using length_enc_node [OF assms]
    by (simp add: topo_loop.simps [of _ "length pre"] looksLikeNode_def)
qed

lemma find_start_here: "looksLikeNode data i \<Longrightarrow> find_start data i = i"
  by (simp add: find_start.simps)

lemma find_start_stops:
  "find_start data i < length data \<Longrightarrow> looksLikeNode data (find_start data i)"
proof (induction data i rule: find_start.induct)
  case (1 data i)
  then show ?case
    by (cases "i < length data \<and> \<not> looksLikeNode data i")
      (auto simp: find_start.simps [of data i])
qed

lemma parseTopo_at_0: "looksLikeNode data 0 \<Longrightarrow> parseTopo data = topo_loop data 0 []"
  by (auto simp: parseTopo_def find_start_here looksLikeNode_def)

lemma enc_seq_starts:
  "list_all wf_wire ws \<Longrightarrow> ws \<noteq> [] \<Longrightarrow> looksLikeNode (enc_seq ws @ tail) 0"
  using looksLikeNode_enc [of "hd ws" "[]"]
  by (cases ws) (simp_all add: enc_seq_def del: append_assoc, simp)

text \<open>C27: a topology report in the documented layout is parsed back to its nodes, in
  order, with the EIDs in upper-case hexadecimal and state and type in decimal.\<close>

theorem parseTopo_roundtrip:
  assumes "ws \<noteq> []" "list_all wf_wire ws"
  shows "parseTopo (enc_topo ws) = Inr (map node_of ws)"
proof -
  obtain vs w where ws: "ws = vs @ [w]" using assms(1) by (cases ws rule: rev_cases) auto
  with assms(2) have wf: "list_all wf_wire vs" "wf_wire w" by auto
  have "looksLikeNode (enc_seq vs @ enc_node w) 0"
    using enc_seq_starts [OF wf(1)] looksLikeNode_enc [OF wf(2), of "[]" "[]"]
    by (cases "vs = []") (auto simp: enc_seq_def)
  then have "parseTopo (enc_topo ws) = topo_loop (enc_seq vs @ enc_node w) 0 []"
    by (simp add: ws enc_topo_snoc parseTopo_at_0)
  also have "\<dots> = topo_loop (enc_seq vs @ enc_node w) (length (enc_seq vs)) (map node_of vs)"
    using topo_loop_seq [OF wf(1), of "[]"] by simp
  also have "\<dots> = Inr (map node_of ws)"
    using topo_loop_last [OF wf(2)] by (simp add: ws)
  finally show ?thesis .
qed

theorem parseTopo_roundtrip_witness:
  "parseTopo (enc_topo
     [\<lparr>w_eid = [1, 2, 3, 4, 5, 6], w_state = 1, w_type = 0, w_parent = [9, 9, 9, 9, 9, 9]\<rparr>]) =
   Inr (map node_of
     [\<lparr>w_eid = [1, 2, 3, 4, 5, 6], w_state = 1, w_type = 0, w_parent = [9, 9, 9, 9, 9, 9]\<rparr>])"
  by (rule parseTopo_roundtrip) (simp_all add: wf_wire_def)

text \<open>When the last node of a report lacks only the final byte of its parent,
  the sixteen-byte guard lets it in and the whole report is rejected with an error, however
  many complete nodes precede it.\<close>

theorem parseTopo_truncated_node:
  assumes "ws \<noteq> []" "list_all wf_wire ws" "wf_wire w"
  shows "parseTopo (enc_seq ws @ butlast (enc_node w)) = Inl TopoMissingParent"
  using parseTopo_at_0 [OF enc_seq_starts [OF assms(2,1)]]
    topo_loop_seq [OF assms(2), of "[]" "butlast (enc_node w)" "[]"]
    topo_loop_truncated [OF assms(3), of "enc_seq ws"] by simp

theorem parseTopo_truncated_node_witness:
  "let w = \<lparr>w_eid = [1, 2, 3, 4, 5, 6], w_state = 1, w_type = 0, w_parent = [9, 9, 9, 9, 9, 9]\<rparr>
   in parseTopo (enc_seq [w] @ butlast (enc_node w)) = Inl TopoMissingParent"
  unfolding Let_def by (rule parseTopo_truncated_node) (simp_all add: wf_wire_def)

text \<open>
  Since the guard counts sixteen bytes and a node has seventeen, the only error inside the
  loop is a parent that lacks its last byte.
\<close>

lemma read_node_error:
  "looksLikeNode data i \<Longrightarrow> read_node data i = Inl e \<Longrightarrow> e = TopoMissingParent \<and> length data = i + 16"
  by (auto simp: looksLikeNode_def read_node_def Let_def add.commute split: if_splits)

lemma topo_loop_error:
  "topo_loop data i acc = Inl e \<Longrightarrow> e = TopoMissingParent"
proof (induction data i acc rule: topo_loop.induct)
  case (1 data i acc)
  then show ?case
    by (auto simp: topo_loop.simps [of data i] dest: read_node_error
        split: if_splits sum.splits prod.splits)
qed

lemma topo_loop_nonempty:
  "topo_loop data i acc = Inr ns \<Longrightarrow> looksLikeNode data i \<or> acc \<noteq> [] \<Longrightarrow> ns \<noteq> []"
proof (induction data i acc rule: topo_loop.induct)
  case (1 data i acc)
  then show ?case
    by (auto simp: topo_loop.simps [of data i] looksLikeNode_def
        split: if_splits sum.splits prod.splits)
qed


end
