(* ===== verification/ParamTable.thy ===== *)
theory ParamTable
  imports ParamValues
begin

text \<open>
  The parameter table of \<open>config/param_table_parser_data.go\<close> (appendix D of the protocol):
  every parameter type of the code, its name, unit, width and parser, and the lookup by the
  14-bit type code of a parameter head. One definition per section of the table.
\<close>

section \<open>Keys and entries\<close>

datatype ParamKey = PK (FeatureBits: byte) (CodeBits: u16)

text \<open>The parser a table entry refers to; \<open>run_parser\<close> is the call through the field.\<close>

datatype parser =
    ParseFloat32 | ParseUint8 | ParseUint16 | ParseUint32
  | Parsefloat32Array | ParseUint16Array | ParseInt16 | ParseTopo

fun run_parser :: "parser \<Rightarrow> bytes \<Rightarrow> parsed" where
  "run_parser ParseFloat32 d = parseFloat32 d"
| "run_parser ParseUint8 d = parseUint8 d"
| "run_parser ParseUint16 d = parseUint16 d"
| "run_parser ParseUint32 d = parseUint32 d"
| "run_parser Parsefloat32Array d = parsefloat32Array d"
| "run_parser ParseUint16Array d = parseUint16Array d"
| "run_parser ParseInt16 d = parseInt16 d"
| "run_parser ParseTopo d =
     Done (case parseTopo d of Inl e \<Rightarrow> Inl e | Inr ns \<Rightarrow> Inr (VTopo ns))"

record ParamInfo =
  pi_Name :: string
  pi_Unit :: string
  pi_ByteLen :: int
  pi_DataType :: string
  pi_Parse :: parser

definition pinfo :: "string \<Rightarrow> string \<Rightarrow> int \<Rightarrow> string \<Rightarrow> parser \<Rightarrow> ParamInfo" where
  "pinfo n u l d p = \<lparr>pi_Name = n, pi_Unit = u, pi_ByteLen = l, pi_DataType = d, pi_Parse = p\<rparr>"

lemma pinfo_simps [simp]:
  "pi_Name (pinfo n u l d p) = n" "pi_Unit (pinfo n u l d p) = u"
  "pi_ByteLen (pinfo n u l d p) = l" "pi_DataType (pinfo n u l d p) = d"
  "pi_Parse (pinfo n u l d p) = p"
  by (simp_all add: pinfo_def)

text \<open>Keys are ordered by feature, then code, as the sections of the table are.\<close>

instantiation ParamKey :: linorder
begin

definition less_eq_ParamKey :: "ParamKey \<Rightarrow> ParamKey \<Rightarrow> bool" where
  "j \<le> k \<longleftrightarrow> FeatureBits j < FeatureBits k \<or>
     FeatureBits j = FeatureBits k \<and> CodeBits j \<le> CodeBits k"

definition less_ParamKey :: "ParamKey \<Rightarrow> ParamKey \<Rightarrow> bool" where
  "j < k \<longleftrightarrow> FeatureBits j < FeatureBits k \<or>
     FeatureBits j = FeatureBits k \<and> CodeBits j < CodeBits k"

instance
  by standard (auto simp: less_eq_ParamKey_def less_ParamKey_def ParamKey.expand)

end

section \<open>The table\<close>

definition params_D1_general :: "(ParamKey \<times> ParamInfo) list" where
  "params_D1_general = [
    (PK 0 1, pinfo ''Length'' ''m'' 4 ''float32'' ParseFloat32),
    (PK 0 2, pinfo ''Mass'' ''kg'' 4 ''float32'' ParseFloat32),
    (PK 0 3, pinfo ''Time'' ''s'' 4 ''uint32'' ParseUint32),
    (PK 0 4, pinfo ''ElectricCurrent'' ''A'' 4 ''float32'' ParseFloat32),
    (PK 0 5, pinfo ''Temperature'' [CHR 0xE2, CHR 0x84, CHR 0x83] 4 ''float32'' ParseFloat32),
    (PK 0 6, pinfo ''AmountOfSubstance'' ''mol'' 4 ''float32'' ParseFloat32),
    (PK 0 7, pinfo ''LuminousIntensity'' ''cd'' 4 ''float32'' ParseFloat32),
    (PK 0 8, pinfo ''topologyDiagram'' '''' (-1) '''' ParseTopo),
    (PK 0 28, pinfo ''HeartbeatStatus'' '''' 1 ''uint8'' ParseUint8),
    (PK 0 29, pinfo ''BatteryRemaining'' ''%'' 2 ''uint16'' ParseUint16),
    (PK 0 30, pinfo ''BatteryVoltage'' ''V'' 4 ''float32'' ParseFloat32),
    (PK 0 31, pinfo ''SensorSelfTestStatus'' '''' 1 ''uint8'' ParseUint8),
    (PK 0 32, pinfo ''NetworkConnectionStatus'' '''' 1 ''uint8'' ParseUint8),
    (PK 0 33, pinfo ''PowerStatus'' '''' 1 ''uint8'' ParseUint8),
    (PK 0 34, pinfo ''DataCollectionInterval'' ''s'' 2 ''uint16'' ParseUint16),
    (PK 0 35, pinfo ''SignalStrength'' '''' 4 ''float32'' ParseFloat32),
    (PK 0 56, pinfo ''PrimaryCurrent'' ''kA'' 4 ''float32'' ParseFloat32),
    (PK 0 57, pinfo ''SecondaryCurrent'' ''mA'' 4 ''float32'' ParseFloat32),
    (PK 0 58, pinfo ''PrimaryVoltage'' ''kV'' 4 ''float32'' ParseFloat32),
    (PK 0 59, pinfo ''SecondaryVoltage'' ''mV'' 4 ''float32'' ParseFloat32),
    (PK 0 60, pinfo ''Waveform'' '''' (-1) ''float32[]'' Parsefloat32Array),
    (PK 0 61, pinfo ''PhaseAngle'' [CHR 0xC2, CHR 0xB0] 4 ''float32'' ParseFloat32),
    (PK 0 62, pinfo ''Phase'' '''' 2 ''uint16'' ParseUint16),
    (PK 0 63, pinfo ''Frequency'' ''Hz'' 4 ''float32'' ParseFloat32),
    (PK 0 128, pinfo ''ActivePower'' ''W'' 4 ''float32'' ParseFloat32),
    (PK 0 129, pinfo ''ReactivePower'' ''W'' 4 ''float32'' ParseFloat32),
    (PK 0 130, pinfo ''ElectricEnergy'' ''kWh'' 4 ''float32'' ParseFloat32),
    (PK 0 131, pinfo ''PowerFactor'' '''' 4 ''float32'' ParseFloat32),
    (PK 0 132, pinfo ''VoltagePresenceIndicator'' '''' 2 ''uint16'' ParseUint16),
    (PK 0 133, pinfo ''ElectricCharge'' ''C'' 4 ''float32'' ParseFloat32),
    (PK 0 90, pinfo ''Longitude'' '''' 4 ''float32'' ParseFloat32),
    (PK 0 91, pinfo ''Latitude'' '''' 4 ''float32'' ParseFloat32),
    (PK 0 92, pinfo ''Altitude'' '''' 4 ''float32'' ParseFloat32),
    (PK 0 93, pinfo ''Displacement'' '''' 4 ''float32'' ParseFloat32),
    (PK 0 94, pinfo ''DisplacementTrajectory'' ''mm'' (-1) ''float32[]'' Parsefloat32Array),
    (PK 0 95, pinfo ''Velocity'' ''m/s'' 4 ''float32'' ParseFloat32),
    (PK 0 96, pinfo ''Acceleration'' [CHR ''m'', CHR ''/'', CHR ''s'', CHR 0xC2, CHR 0xB2] 4 ''float32'' ParseFloat32),
    (PK 0 97, pinfo ''Angle'' ''rad'' 4 ''float32'' ParseFloat32),
    (PK 0 98, pinfo ''AngularVelocity'' ''rad/s'' 4 ''float32'' ParseFloat32),
    (PK 0 99, pinfo ''AngularAcceleration'' [CHR ''r'', CHR ''a'', CHR ''d'', CHR ''/'', CHR ''s'', CHR 0xC2, CHR 0xB2] 4 ''float32'' ParseFloat32),
    (PK 0 100, pinfo ''Strain'' ''%'' 4 ''float32'' ParseFloat32),
    (PK 0 101, pinfo ''StressOrPressure'' ''Pa'' 4 ''float32'' ParseFloat32),
    (PK 0 102, pinfo ''VibrationSpectrum'' [CHR ''m'', CHR ''/'', CHR ''s'', CHR 0xC2, CHR 0xB2] (-1) ''float32[]'' Parsefloat32Array),
    (PK 0 103, pinfo ''Force'' ''N'' 4 ''float32'' ParseFloat32)]"

definition params_D2_transmission :: "(ParamKey \<times> ParamInfo) list" where
  "params_D2_transmission = [
    (PK 1 1, pinfo ''10minAvgWindSpeed'' ''m/s'' 4 ''float32'' ParseFloat32),
    (PK 1 2, pinfo ''10minAvgWindDirection'' [CHR 0xC2, CHR 0xB0] 2 ''int16'' ParseInt16),
    (PK 1 3, pinfo ''MaxWindSpeed'' ''m/s'' 4 ''float32'' ParseFloat32),
    (PK 1 36, pinfo ''ExtremeWindSpeed'' ''m/s'' 4 ''float32'' ParseFloat32),
    (PK 1 21, pinfo ''StandardWindSpeed'' ''m/s'' 4 ''float32'' ParseFloat32),
    (PK 1 6, pinfo ''Temperature1'' [CHR 0xC2, CHR 0xB0, CHR ''C''] 4 ''float32'' ParseFloat32),
    (PK 1 7, pinfo ''Humidity1'' ''%RH'' 2 ''uint16'' ParseUint16),
    (PK 1 8, pinfo ''Pressure'' ''hPa'' 4 ''float32'' ParseFloat32),
    (PK 1 9, pinfo ''Rainfall10min'' ''mm'' 4 ''float32'' ParseFloat32),
    (PK 1 10, pinfo ''RainIntensity'' ''mm/min'' 4 ''float32'' ParseFloat32),
    (PK 1 11, pinfo ''SolarRadiation'' ''W/m2'' 2 ''uint16'' ParseUint16),
    (PK 1 12, pinfo ''InstantWindSpeed'' ''m/s'' 4 ''float32'' ParseFloat32),
    (PK 1 13, pinfo ''InstantWindDirection'' [CHR 0xC2, CHR 0xB0] 2 ''int16'' ParseInt16),
    (PK 1 14, pinfo ''WindDirectionDeviation'' [CHR 0xC2, CHR 0xB0] 2 ''int16'' ParseInt16)]"

definition params_D3_substation :: "(ParamKey \<times> ParamInfo) list" where
  "params_D3_substation = [
    (PK 2 1, pinfo ''ArresterLeakageTotalCurrent'' ''mA'' 4 ''float32'' ParseFloat32),
    (PK 2 2, pinfo ''ArresterLeakageResistiveCurrent'' ''mA'' 4 ''float32'' ParseFloat32),
    (PK 2 3, pinfo ''LeakageCurrentSamplingPhase'' [CHR 0xC2, CHR 0xB0] 4 ''float32'' ParseFloat32),
    (PK 2 4, pinfo ''ArresterOperationCount'' ''times'' 2 ''uint16'' ParseUint16),
    (PK 2 5, pinfo ''ArresterResistiveLeakageCurrentPeak'' ''mA'' 4 ''float32'' ParseFloat32),
    (PK 2 6, pinfo ''BusVoltageSamplingPhase'' [CHR 0xC2, CHR 0xB0] 4 ''float32'' ParseFloat32),
    (PK 2 27, pinfo ''TransformerCoreClipGroundingCurrent'' ''A'' 4 ''float32'' ParseFloat32),
    (PK 2 28, pinfo ''TransformerCoreClipGroundingCurrentSpectrum'' ''A'' (-1) ''uint16[]'' ParseUint16Array),
    (PK 2 29, pinfo ''DielectricLossFactor'' [CHR 0xC2, CHR 0xB0] 4 ''float32'' ParseFloat32),
    (PK 2 30, pinfo ''Capacitance'' ''pF'' 4 ''float32'' ParseFloat32),
    (PK 2 31, pinfo ''TotalCurrent'' ''mA'' 4 ''float32'' ParseFloat32),
    (PK 2 32, pinfo ''InitialPhaseAngle'' [CHR 0xC2, CHR 0xB0] 4 ''float32'' ParseFloat32),
    (PK 2 33, pinfo ''ReferenceCurrent'' ''mA'' 4 ''float32'' ParseFloat32),
    (PK 2 34, pinfo ''ReferencePhaseAngle'' [CHR 0xC2, CHR 0xB0] 4 ''float32'' ParseFloat32),
    (PK 2 55, pinfo ''ClosingDisplacement'' ''mm'' 4 ''float32'' ParseFloat32),
    (PK 2 56, pinfo ''ClosingAngularDisplacement'' [CHR 0xC2, CHR 0xB0] 4 ''float32'' ParseFloat32),
    (PK 2 57, pinfo ''ClosingSpeed'' ''m/s'' 4 ''float32'' ParseFloat32),
    (PK 2 58, pinfo ''ClosingTime'' ''s'' 4 ''float32'' ParseFloat32),
    (PK 2 59, pinfo ''ClosingCoilCurrentPeak'' ''A'' 4 ''float32'' ParseFloat32),
    (PK 2 60, pinfo ''ClosingCoilCurrentOnTime'' ''ms'' 4 ''float32'' ParseFloat32),
    (PK 2 61, pinfo ''OpeningDisplacement'' ''mm'' 4 ''float32'' ParseFloat32),
    (PK 2 62, pinfo ''OpeningAngularDisplacement'' [CHR 0xC2, CHR 0xB0] 4 ''float32'' ParseFloat32),
    (PK 2 63, pinfo ''OpeningSpeed'' ''m/s'' 4 ''float32'' ParseFloat32),
    (PK 2 64, pinfo ''OpeningTime'' ''s'' 4 ''float32'' ParseFloat32),
    (PK 2 65, pinfo ''OpeningCoilCurrentPeak'' ''A'' 4 ''float32'' ParseFloat32),
    (PK 2 66, pinfo ''OpeningCoilCurrentOnTime'' ''ms'' 4 ''float32'' ParseFloat32),
    (PK 2 67, pinfo ''EnergyStorageMotorOperatingCurrentMax'' ''A'' 4 ''float32'' ParseFloat32),
    (PK 2 68, pinfo ''EnergyStorageMotorStartingCurrentMax'' ''A'' 4 ''float32'' ParseFloat32),
    (PK 2 69, pinfo ''EnergyStorageMotorCurrentDuration'' ''ms'' 4 ''float32'' ParseFloat32),
    (PK 2 70, pinfo ''MechanismOperationCount'' '''' 1 ''uint8'' ParseUint8),
    (PK 2 71, pinfo ''SwitchContactPosition'' '''' 1 ''uint8'' ParseUint8),
    (PK 2 72, pinfo ''DriveMechanismDisplacementTimeWaveform'' '''' (-1) ''float32[]'' Parsefloat32Array),
    (PK 2 73, pinfo ''ClosingCoilCurrentTimeWaveform'' '''' (-1) ''float32[]'' Parsefloat32Array),
    (PK 2 74, pinfo ''OpeningCoilCurrentTimeWaveform'' '''' (-1) ''float32[]'' Parsefloat32Array),
    (PK 2 75, pinfo ''EnergyStorageMotorCurrentTimeWaveform'' '''' (-1) ''float32[]'' Parsefloat32Array),
    (PK 2 76, pinfo ''SwitchContactPressure'' ''N'' 4 ''float32'' ParseFloat32),
    (PK 2 77, pinfo ''LoadTapChangerPosition'' '''' 2 ''uint16'' ParseUint16),
    (PK 2 98, pinfo ''HighFrequencyMultiSpectrum'' '''' (-1) ''float32[]'' Parsefloat32Array),
    (PK 2 99, pinfo ''HighFrequencyPRPDSpectrum'' '''' (-1) ''float32[]'' Parsefloat32Array),
    (PK 2 100, pinfo ''HighFrequencyPRPSSpectrum'' '''' (-1) ''float32[]'' Parsefloat32Array),
    (PK 2 101, pinfo ''HighFrequencyTFSpectrum'' '''' (-1) ''float32[]'' Parsefloat32Array),
    (PK 2 102, pinfo ''UltraHighFrequencyMultiSpectrum'' '''' (-1) ''float32[]'' Parsefloat32Array),
    (PK 2 103, pinfo ''UltraHighFrequencyPRPDSpectrum'' '''' (-1) ''float32[]'' Parsefloat32Array),
    (PK 2 104, pinfo ''UltraHighFrequencyPRPSSpectrum'' '''' (-1) ''float32[]'' Parsefloat32Array),
    (PK 2 105, pinfo ''UltrasonicMultiSpectrum'' '''' (-1) ''float32[]'' Parsefloat32Array),
    (PK 2 106, pinfo ''UltrasonicFeatureSpectrum'' '''' (-1) ''float32[]'' Parsefloat32Array),
    (PK 2 107, pinfo ''UltrasonicPhaseSpectrum'' '''' (-1) ''float32[]'' Parsefloat32Array),
    (PK 2 108, pinfo ''UltrasonicPulseSpectrum'' '''' (-1) ''float32[]'' Parsefloat32Array),
    (PK 2 109, pinfo ''UltrasonicWaveform'' '''' (-1) ''float32[]'' Parsefloat32Array),
    (PK 2 110, pinfo ''TransientVoltageMultiSpectrum'' '''' (-1) ''float32[]'' Parsefloat32Array),
    (PK 2 111, pinfo ''TransientVoltageAmplitude'' '''' (-1) ''float32[]'' Parsefloat32Array),
    (PK 2 112, pinfo ''TransientVoltagePRPDSpectrum'' '''' (-1) ''float32[]'' Parsefloat32Array),
    (PK 2 113, pinfo ''TransientVoltagePRPSSpectrum'' '''' (-1) ''float32[]'' Parsefloat32Array),
    (PK 2 114, pinfo ''OscillationIncidentWave'' '''' (-1) ''float32[]'' Parsefloat32Array),
    (PK 2 115, pinfo ''OscillationReflectedWave'' '''' (-1) ''float32[]'' Parsefloat32Array),
    (PK 2 136, pinfo ''Methane'' [CHR 0xCE, CHR 0xBC, CHR ''L'', CHR ''/'', CHR ''L''] 4 ''float32'' ParseFloat32),
    (PK 2 137, pinfo ''Ethane'' [CHR 0xCE, CHR 0xBC, CHR ''L'', CHR ''/'', CHR ''L''] 4 ''float32'' ParseFloat32),
    (PK 2 138, pinfo ''Ethylene'' [CHR 0xCE, CHR 0xBC, CHR ''L'', CHR ''/'', CHR ''L''] 4 ''float32'' ParseFloat32),
    (PK 2 139, pinfo ''Acetylene'' [CHR 0xCE, CHR 0xBC, CHR ''L'', CHR ''/'', CHR ''L''] 4 ''float32'' ParseFloat32),
    (PK 2 140, pinfo ''CarbonMonoxide'' [CHR 0xCE, CHR 0xBC, CHR ''L'', CHR ''/'', CHR ''L''] 4 ''float32'' ParseFloat32),
    (PK 2 141, pinfo ''CarbonDioxide'' [CHR 0xCE, CHR 0xBC, CHR ''L'', CHR ''/'', CHR ''L''] 4 ''float32'' ParseFloat32),
    (PK 2 142, pinfo ''Hydrogen'' [CHR 0xCE, CHR 0xBC, CHR ''L'', CHR ''/'', CHR ''L''] 4 ''float32'' ParseFloat32),
    (PK 2 143, pinfo ''WaterContent'' [CHR 0xCE, CHR 0xBC, CHR ''L'', CHR ''/'', CHR ''L''] 4 ''float32'' ParseFloat32),
    (PK 2 144, pinfo ''Nitrogen'' [CHR 0xCE, CHR 0xBC, CHR ''L'', CHR ''/'', CHR ''L''] 4 ''float32'' ParseFloat32),
    (PK 2 145, pinfo ''Oxygen'' [CHR 0xCE, CHR 0xBC, CHR ''L'', CHR ''/'', CHR ''L''] 4 ''float32'' ParseFloat32),
    (PK 2 146, pinfo ''TotalHydrocarbon'' [CHR 0xCE, CHR 0xBC, CHR ''L'', CHR ''/'', CHR ''L''] 4 ''float32'' ParseFloat32),
    (PK 2 147, pinfo ''OilTemperature'' [CHR 0xE2, CHR 0x84, CHR 0x83] 4 ''float32'' ParseFloat32),
    (PK 2 148, pinfo ''OilPressure'' ''Pa'' 4 ''float32'' ParseFloat32),
    (PK 2 149, pinfo ''TotalCombustibleGas'' [CHR 0xCE, CHR 0xBC, CHR ''L'', CHR ''/'', CHR ''L''] 4 ''float32'' ParseFloat32),
    (PK 2 150, pinfo ''CarrierGasPressure'' ''MPa'' 4 ''float32'' ParseFloat32)]"

definition params_D3_gases :: "(ParamKey \<times> ParamInfo) list" where
  "params_D3_gases = [
    (PK 2 171, pinfo ''SF6DewPoint'' [CHR 0xC2, CHR 0xB0, CHR ''C''] 4 ''float32'' ParseFloat32),
    (PK 2 172, pinfo ''SF6Moisture'' [CHR 0xCE, CHR 0xBC, CHR ''L'', CHR ''/'', CHR ''L''] 4 ''float32'' ParseFloat32),
    (PK 2 173, pinfo ''SF6Purity'' ''%'' 4 ''float32'' ParseFloat32),
    (PK 2 174, pinfo ''H2S'' [CHR 0xCE, CHR 0xBC, CHR ''L'', CHR ''/'', CHR ''L''] 4 ''float32'' ParseFloat32),
    (PK 2 175, pinfo ''SO2'' [CHR 0xCE, CHR 0xBC, CHR ''L'', CHR ''/'', CHR ''L''] 4 ''float32'' ParseFloat32),
    (PK 2 176, pinfo ''HF'' [CHR 0xCE, CHR 0xBC, CHR ''L'', CHR ''/'', CHR ''L''] 4 ''float32'' ParseFloat32),
    (PK 2 177, pinfo ''SOF2'' [CHR 0xCE, CHR 0xBC, CHR ''L'', CHR ''/'', CHR ''L''] 4 ''float32'' ParseFloat32),
    (PK 2 178, pinfo ''CF4'' [CHR 0xCE, CHR 0xBC, CHR ''L'', CHR ''/'', CHR ''L''] 4 ''float32'' ParseFloat32),
    (PK 2 179, pinfo ''SO2F2'' [CHR 0xCE, CHR 0xBC, CHR ''L'', CHR ''/'', CHR ''L''] 4 ''float32'' ParseFloat32),
    (PK 2 180, pinfo ''CO'' [CHR 0xCE, CHR 0xBC, CHR ''L'', CHR ''/'', CHR ''L''] 4 ''float32'' ParseFloat32),
    (PK 2 181, pinfo ''CO2'' [CHR 0xCE, CHR 0xBC, CHR ''L'', CHR ''/'', CHR ''L''] 4 ''float32'' ParseFloat32),
    (PK 2 182, pinfo ''SF6GaugePressure'' ''Pa'' 4 ''float32'' ParseFloat32),
    (PK 2 183, pinfo ''SF6AbsolutePressure'' ''Pa'' 4 ''float32'' ParseFloat32),
    (PK 2 184, pinfo ''SF6O2N2'' [CHR 0xCE, CHR 0xBC, CHR ''L'', CHR ''/'', CHR ''L''] 4 ''float32'' ParseFloat32),
    (PK 2 185, pinfo ''SF6ActualPressure'' ''Pa'' 4 ''float32'' ParseFloat32),
    (PK 2 186, pinfo ''SF6Temperature'' [CHR 0xC2, CHR 0xB0, CHR ''C''] 4 ''float32'' ParseFloat32),
    (PK 2 207, pinfo ''Nitrogen'' [CHR 0xCE, CHR 0xBC, CHR ''L'', CHR ''/'', CHR ''L''] 4 ''float32'' ParseFloat32),
    (PK 2 208, pinfo ''Ammonia'' [CHR 0xCE, CHR 0xBC, CHR ''L'', CHR ''/'', CHR ''L''] 4 ''float32'' ParseFloat32),
    (PK 2 209, pinfo ''CombustibleGasConcentration'' [CHR 0xCE, CHR 0xBC, CHR ''L'', CHR ''/'', CHR ''L''] 4 ''float32'' ParseFloat32),
    (PK 2 210, pinfo ''ToxicGasConcentration'' [CHR 0xCE, CHR 0xBC, CHR ''L'', CHR ''/'', CHR ''L''] 4 ''float32'' ParseFloat32),
    (PK 2 211, pinfo ''SF6GasConcentration'' [CHR 0xCE, CHR 0xBC, CHR ''L'', CHR ''/'', CHR ''L''] 4 ''float32'' ParseFloat32),
    (PK 2 212, pinfo ''OtherGasConcentration'' [CHR 0xCE, CHR 0xBC, CHR ''L'', CHR ''/'', CHR ''L''] 4 ''float32'' ParseFloat32)]"

definition params_D4_auxiliary :: "(ParamKey \<times> ParamInfo) list" where
  "params_D4_auxiliary = [
    (PK 3 1, pinfo ''ArcFlashIntensity'' ''mW/cm2'' 4 ''float32'' ParseFloat32),
    (PK 3 2, pinfo ''Noise'' ''dB'' 4 ''float32'' ParseFloat32),
    (PK 3 3, pinfo ''WaterIngressStatus'' '''' 2 ''uint16'' ParseUint16),
    (PK 3 4, pinfo ''WaterLevel'' ''m'' 4 ''float32'' ParseFloat32),
    (PK 3 5, pinfo ''Settlement'' ''mm'' 4 ''float32'' ParseFloat32),
    (PK 3 6, pinfo ''EquipmentRunningStatus'' '''' 1 ''uint8'' ParseUint8),
    (PK 3 7, pinfo ''DoorWindowLockStatus'' '''' 1 ''uint8'' ParseUint8),
    (PK 3 8, pinfo ''PerimeterAlarmStatus'' '''' 1 ''uint8'' ParseUint8),
    (PK 3 9, pinfo ''ManholeCoverStatus'' '''' 1 ''uint8'' ParseUint8),
    (PK 3 10, pinfo ''SmokeDetectorStatus'' '''' 1 ''uint8'' ParseUint8),
    (PK 3 11, pinfo ''SwitchControl'' '''' 1 ''uint8'' ParseUint8),
    (PK 3 12, pinfo ''SwitchStatus'' '''' 1 ''uint8'' ParseUint8),
    (PK 3 13, pinfo ''ACSetTemperature'' [CHR 0xE2, CHR 0x84, CHR 0x83] 4 ''float32'' ParseFloat32),
    (PK 3 14, pinfo ''ACCurrentTemperature'' [CHR 0xE2, CHR 0x84, CHR 0x83] 4 ''float32'' ParseFloat32),
    (PK 3 35, pinfo ''StringVoltage'' ''V'' 4 ''float32'' ParseFloat32),
    (PK 3 36, pinfo ''StringCurrent'' ''A'' 4 ''float32'' ParseFloat32),
    (PK 3 37, pinfo ''BatteryGroupStatus'' '''' 1 ''uint8'' ParseUint8),
    (PK 3 38, pinfo ''BalanceDegree'' ''%'' 2 ''uint16'' ParseUint16),
    (PK 3 39, pinfo ''CellVoltage'' ''mV'' 4 ''float32'' ParseFloat32),
    (PK 3 40, pinfo ''CellInternalResistance'' [CHR ''m'', CHR 0xCE, CHR 0xA9] 4 ''float32'' ParseFloat32),
    (PK 3 41, pinfo ''CellSOC'' ''%'' 2 ''uint16'' ParseUint16),
    (PK 3 42, pinfo ''CellSOH'' ''%'' 2 ''uint16'' ParseUint16),
    (PK 3 43, pinfo ''CellTemperature'' [CHR 0xE2, CHR 0x84, CHR 0x83] 4 ''float32'' ParseFloat32)]"

definition paramMap :: "(ParamKey \<times> ParamInfo) list" where
  "paramMap = params_D1_general @ params_D2_transmission @ (params_D3_substation @ params_D3_gases) @
     params_D4_auxiliary"

definition LookupParamInfo :: "u16 \<Rightarrow> ParamInfo option" where
  "LookupParamInfo paramType =
     (let feature = ucast (drop_bit 11 paramType AND 0x07);
          code = paramType AND 0x7FF
      in mget paramMap (PK feature code))"

section \<open>Keys are unique\<close>

lemma sorted_head [simp]:
  "sorted_wrt (<) ((x :: ParamKey) # y # zs) \<longleftrightarrow> x < y \<and> sorted_wrt (<) (y # zs)"
  by auto

lemma strict_sorted_distinct: "sorted_wrt (<) (xs :: ParamKey list) \<Longrightarrow> distinct xs"
  by (simp add: strict_sorted_iff)

lemma sorted_one [simp]: "sorted_wrt (<) [x :: ParamKey]"
  by simp

definition section_keys :: "byte \<Rightarrow> (ParamKey \<times> ParamInfo) list \<Rightarrow> bool" where
  "section_keys f t \<longleftrightarrow> list_all (\<lambda>(k, i). FeatureBits k = f \<and> CodeBits k < 2048) t"

lemma D1_distinct: "distinct (map fst params_D1_general)"
  by (simp add: params_D1_general_def)

lemma D2_distinct: "distinct (map fst params_D2_transmission)"
  by (simp add: params_D2_transmission_def)

lemma D3_distinct: "distinct (map fst (params_D3_substation @ params_D3_gases))"
  by (rule strict_sorted_distinct)
    (simp add: params_D3_substation_def params_D3_gases_def less_ParamKey_def del: sorted_wrt.simps(2))

lemma D4_distinct: "distinct (map fst params_D4_auxiliary)"
  by (rule strict_sorted_distinct)
    (simp add: params_D4_auxiliary_def less_ParamKey_def del: sorted_wrt.simps(2))

lemma section_keys_table:
  "section_keys 0 params_D1_general" "section_keys 1 params_D2_transmission"
  "section_keys 2 (params_D3_substation @ params_D3_gases)" "section_keys 3 params_D4_auxiliary"
  by (simp_all add: section_keys_def params_D1_general_def params_D2_transmission_def
      params_D3_substation_def params_D3_gases_def params_D4_auxiliary_def)

lemma section_keys_mem:
  "section_keys f t \<Longrightarrow> (k, i) \<in> set t \<Longrightarrow> FeatureBits k = f \<and> CodeBits k < 2048"
  by (fastforce simp: section_keys_def list_all_iff)

lemma section_keys_disjoint:
  "section_keys f t \<Longrightarrow> section_keys g u \<Longrightarrow> f \<noteq> g \<Longrightarrow> fst ` set t \<inter> fst ` set u = {}"
  by (fastforce dest: section_keys_mem)

lemma paramMap_wf: "wf_map paramMap"
proof -
  note disj = section_keys_table [THEN section_keys_disjoint]
  have "fst ` set params_D1_general \<inter> fst ` set params_D2_transmission = {}"
    "fst ` set params_D1_general \<inter> fst ` set (params_D3_substation @ params_D3_gases) = {}"
    "fst ` set params_D1_general \<inter> fst ` set params_D4_auxiliary = {}"
    "fst ` set params_D2_transmission \<inter> fst ` set (params_D3_substation @ params_D3_gases) = {}"
    "fst ` set params_D2_transmission \<inter> fst ` set params_D4_auxiliary = {}"
    "fst ` set (params_D3_substation @ params_D3_gases) \<inter> fst ` set params_D4_auxiliary = {}"
    by (rule disj, rule section_keys_table, simp)+
  then show ?thesis
    using D1_distinct D2_distinct D3_distinct D4_distinct
    by (simp add: wf_map_def paramMap_def image_Un Int_Un_distrib Int_Un_distrib2)
qed

lemma paramMap_key_bounds: "(k, i) \<in> set paramMap \<Longrightarrow> FeatureBits k < 4 \<and> CodeBits k < 2048"
  using section_keys_table by (auto simp: paramMap_def dest: section_keys_mem)

section \<open>Lookup by type code\<close>

definition type_code :: "ParamKey \<Rightarrow> u16" where
  "type_code k = push_bit 11 (ucast (FeatureBits k)) OR CodeBits k"

lemma and_mask_u16: "(w :: u16) AND 0x7FF = take_bit 11 w" "(w :: u16) AND 0x07 = take_bit 3 w"
  by (simp_all add: take_bit_eq_mask mask_eq_exp_minus_1)

lemma and_mask_14: "(w :: u16) AND 0x3FFF = take_bit 14 w"
  by (simp add: take_bit_eq_mask mask_eq_exp_minus_1)

lemma type_code_parts:
  assumes "FeatureBits k < 8" "CodeBits k < 2048"
  shows "ucast (drop_bit 11 (type_code k) AND 0x07) = FeatureBits k"
    and "type_code k AND 0x7FF = CodeBits k"
proof -
  have fb: "bit (FeatureBits k) n \<Longrightarrow> n < 3" for n
    using assms(1) by (intro bit_imp_less [of "FeatureBits k" 3 n]) (simp_all add: word_less_nat_alt)
  have cb: "bit (CodeBits k) n \<Longrightarrow> n < 11" for n
    using assms(2) by (intro bit_imp_less [of "CodeBits k" 11 n]) (simp_all add: word_less_nat_alt)
  show "ucast (drop_bit 11 (type_code k) AND 0x07) = FeatureBits k"
    unfolding and_mask_u16 type_code_def
    by (rule bit_word_eqI) (auto simp: bit_simps dest: fb cb)
  show "type_code k AND 0x7FF = CodeBits k"
    unfolding and_mask_u16 type_code_def
    by (rule bit_word_eqI) (auto simp: bit_simps dest: fb cb)
qed

lemma type_code_of_parts:
  "type_code (PK (ucast (drop_bit 11 t AND 0x07)) (t AND 0x7FF)) = t AND 0x3FFF" for t :: u16
  unfolding type_code_def and_mask_u16
  by (rule bit_word_eqI) (auto simp: and_mask_14 bit_simps)

lemma parts_of_type_code:
  "drop_bit 11 (t AND 0x3FFF) AND 0x07 = drop_bit 11 t AND 0x07" "(t AND 0x3FFF) AND 0x7FF = t AND 0x7FF"
  for t :: u16
  unfolding and_mask_u16 and_mask_14 by (rule bit_word_eqI; auto simp: bit_simps)+

text \<open>A lookup finds an entry exactly when the entry's type code, its
  feature above its code, is the low 14 bits of the type it is asked for. So every entry of the
  table is found, the two highest bits do not matter, and no code has two entries.\<close>

theorem LookupParamInfo_complete:
  "LookupParamInfo t = Some info \<longleftrightarrow> (\<exists>k. (k, info) \<in> set paramMap \<and> type_code k = t AND 0x3FFF)"
proof -
  let ?k = "PK (ucast (drop_bit 11 t AND 0x07)) (t AND 0x7FF)"
  have "k = ?k" if "(k, info) \<in> set paramMap" "type_code k = t AND 0x3FFF" for k
  proof -
    have b: "FeatureBits k < 4" "CodeBits k < 2048" using paramMap_key_bounds that(1) by blast+
    then have "FeatureBits k < 8" by (auto intro: less_trans [of _ "4 :: byte"])
    from type_code_parts [OF this b(2)] that(2) show "k = ?k"
      by (cases k) (simp add: parts_of_type_code)
  qed
  moreover have "LookupParamInfo t = Some info \<longleftrightarrow> (?k, info) \<in> set paramMap"
    by (simp add: LookupParamInfo_def Let_def wf_map_in_iff [OF paramMap_wf])
  ultimately show ?thesis using type_code_of_parts [of t] by metis
qed

lemma Temperature_entry:
  "(PK 0 5, pinfo ''Temperature'' [CHR 0xE2, CHR 0x84, CHR 0x83] 4 ''float32'' ParseFloat32) \<in> set paramMap"
  by (simp add: paramMap_def params_D1_general_def)

text \<open>Two codes have one name: nitrogen dissolved in oil and nitrogen in air.\<close>

lemma two_codes_named_Nitrogen:
  "map_option pi_Name (LookupParamInfo 0x1090) = Some ''Nitrogen''"
  "map_option pi_Name (LookupParamInfo 0x10CF) = Some ''Nitrogen''"
  by code_simp+

section \<open>The entries are coherent\<close>

text \<open>
  What the width and data type columns promise: a fixed width is the only length the parser
  accepts, a width of -1 goes with an array or the topology.
\<close>

fun value_type :: "gvalue \<Rightarrow> string" where
  "value_type (VFloat32 _) = ''float32''"
| "value_type (VUint8 _) = ''uint8''"
| "value_type (VUint16 _) = ''uint16''"
| "value_type (VUint32 _) = ''uint32''"
| "value_type (VInt16 _) = ''int16''"
| "value_type (VFloat32s _) = ''float32[]''"
| "value_type (VUint16s _) = ''uint16[]''"
| "value_type _ = ''''"

fun parser_width :: "parser \<Rightarrow> int" where
  "parser_width ParseFloat32 = 4"
| "parser_width ParseUint8 = 1"
| "parser_width ParseUint16 = 2"
| "parser_width ParseUint32 = 4"
| "parser_width ParseInt16 = 2"
| "parser_width _ = -1"

fun parser_type :: "parser \<Rightarrow> string" where
  "parser_type ParseFloat32 = ''float32''"
| "parser_type ParseUint8 = ''uint8''"
| "parser_type ParseUint16 = ''uint16''"
| "parser_type ParseUint32 = ''uint32''"
| "parser_type ParseInt16 = ''int16''"
| "parser_type Parsefloat32Array = ''float32[]''"
| "parser_type ParseUint16Array = ''uint16[]''"
| "parser_type ParseTopo = ''''"

definition entry_coherent :: "ParamInfo \<Rightarrow> bool" where
  "entry_coherent i \<longleftrightarrow>
     pi_ByteLen i = parser_width (pi_Parse i) \<and> pi_DataType i = parser_type (pi_Parse i)"

lemma table_coherent: "list_all (\<lambda>(k, i). entry_coherent i) paramMap"
  by (simp add: paramMap_def entry_coherent_def params_D1_general_def params_D2_transmission_def
      params_D3_substation_def params_D3_gases_def params_D4_auxiliary_def)

lemma run_parser_type: "run_parser p d = Done (Inr v) \<Longrightarrow> value_type v = parser_type p"
  by (cases p) (auto simp: parseFloat32_def parseUint8_def parseUint16_def parseUint32_def
      parsefloat32Array_def parseUint16Array_def parseInt16_def outcome_simps Let_def
      split: if_splits sum.splits)

lemma run_parser_accepts:
  "0 \<le> parser_width p \<Longrightarrow>
   (\<exists>v. run_parser p d = Done (Inr v)) \<longleftrightarrow> int (length d) = parser_width p"
  using le32_get_Done [of d] le16_get_Done [of d]
  by (cases p) (auto simp: parseFloat32_def parseUint8_def parseUint16_def parseUint32_def
      parseInt16_def)

lemma run_parser_returns: "returns (run_parser p d)"
  by (cases p) (simp_all add: scalar_parsers_return array_parsers_return)

text \<open>C26: the parser of every table entry returns on any bytes without a panic; for an entry
  with a fixed width it succeeds exactly on inputs of that width; and the value it returns
  has the dynamic type named in the data-type column.\<close>

theorem table_parsers_total_and_typed:
  "\<forall>(k, info) \<in> set paramMap. \<forall>d.
     returns (run_parser (pi_Parse info) d) \<and>
     (pi_ByteLen info \<ge> 0 \<longrightarrow>
        ((\<exists>v. run_parser (pi_Parse info) d = Done (Inr v)) \<longleftrightarrow> int (length d) = pi_ByteLen info)) \<and>
     (\<forall>v. run_parser (pi_Parse info) d = Done (Inr v) \<longrightarrow> value_type v = pi_DataType info)"
proof (clarify, intro conjI allI impI)
  fix k info d assume "(k, info) \<in> set paramMap"
  then have c: "entry_coherent info" using table_coherent by (auto simp: list_all_iff)
  show "returns (run_parser (pi_Parse info) d)" by (rule run_parser_returns)
  show "(\<exists>v. run_parser (pi_Parse info) d = Done (Inr v)) \<longleftrightarrow> int (length d) = pi_ByteLen info"
    if "pi_ByteLen info \<ge> 0"
    using that c run_parser_accepts by (simp add: entry_coherent_def)
  show "value_type v = pi_DataType info" if "run_parser (pi_Parse info) d = Done (Inr v)" for v
    using that c run_parser_type by (simp add: entry_coherent_def)
qed

theorem table_parsers_total_and_typed_witness:
  "(\<exists>v. run_parser ParseFloat32 [0, 0, 0, 0] = Done (Inr v)) \<and>
   \<not> (\<exists>v. run_parser ParseFloat32 [0, 0] = Done (Inr v))"
  using bspec [OF table_parsers_total_and_typed Temperature_entry] by simp

end
