(* ===== verification/GoFloat.thy ===== *)
theory GoFloat
  imports Prelude
begin

text \<open>
  Go's floating-point conversions on IEEE bit patterns: decoding, rounding to nearest even,
  the conversions between the two widths and from and to integers, and the comparisons the
  driver makes. A format is given by its fraction bits \<open>f\<close> and exponent bits \<open>w\<close>.
\<close>

section \<open>Formats\<close>

datatype flt = Finite bool nat int | Infinite bool | NotANumber

definition min_exp :: "nat \<Rightarrow> nat \<Rightarrow> int" where
  "min_exp f w = 2 - 2 ^ (w - 1) - int f"

definition sign_bit :: "nat \<Rightarrow> nat \<Rightarrow> bool \<Rightarrow> nat" where
  "sign_bit f w s = (if s then 2 ^ (f + w) else 0)"

definition decode_fmt :: "nat \<Rightarrow> nat \<Rightarrow> nat \<Rightarrow> flt" where
  "decode_fmt f w b =
     (let s = odd (b div 2 ^ (f + w)); ex = b div 2 ^ f mod 2 ^ w; fr = b mod 2 ^ f
      in if ex = 2 ^ w - 1 then (if fr = 0 then Infinite s else NotANumber)
         else if ex = 0 then Finite s fr (min_exp f w)
         else Finite s (2 ^ f + fr) (min_exp f w + int ex - 1))"

fun nbits :: "nat \<Rightarrow> nat" where
  "nbits n = (if n = 0 then 0 else Suc (nbits (n div 2)))"

declare nbits.simps [simp del]

definition round_even :: "nat \<Rightarrow> nat \<Rightarrow> nat" where
  "round_even m s =
     (let q = m div 2 ^ s; r = m mod 2 ^ s
      in if 2 * r < 2 ^ s \<or> 2 * r = 2 ^ s \<and> even q then q else q + 1)"

text \<open>The number \<open>m * 2 ^ e\<close> rounded to a mantissa of \<open>f + 1\<close> bits.\<close>

definition round_parts :: "nat \<Rightarrow> nat \<Rightarrow> nat \<Rightarrow> int \<Rightarrow> nat \<times> int" where
  "round_parts f w m e =
     (let e1 = max (e + int (nbits m) - int (f + 1)) (min_exp f w);
          q = (if e1 \<le> e then m * 2 ^ nat (e - e1) else round_even m (nat (e1 - e)))
      in if q = 2 ^ (f + 1) then (2 ^ f, e1 + 1) else (q, e1))"

definition infinity_bits :: "nat \<Rightarrow> nat \<Rightarrow> bool \<Rightarrow> nat" where
  "infinity_bits f w s = sign_bit f w s + (2 ^ w - 1) * 2 ^ f"

definition pack :: "nat \<Rightarrow> nat \<Rightarrow> bool \<Rightarrow> nat \<times> int \<Rightarrow> nat" where
  "pack f w s qe =
     (let (q, e) = qe; ex = nat (e - min_exp f w + 1)
      in if q < 2 ^ f then sign_bit f w s + q
         else if 2 ^ w - 1 \<le> ex then infinity_bits f w s
         else sign_bit f w s + ex * 2 ^ f + (q - 2 ^ f))"

definition round_fmt :: "nat \<Rightarrow> nat \<Rightarrow> bool \<Rightarrow> nat \<Rightarrow> int \<Rightarrow> nat" where
  "round_fmt f w s m e = pack f w s (round_parts f w m e)"

section \<open>The conversions\<close>

definition decode32 :: "u32 \<Rightarrow> flt" where
  "decode32 b = decode_fmt 23 8 (unat b)"

definition decode64 :: "u64 \<Rightarrow> flt" where
  "decode64 b = decode_fmt 52 11 (unat b)"

text \<open>A NaN keeps its sign and the high bits of its fraction and becomes quiet.\<close>

definition float64_of_float32 :: "u32 \<Rightarrow> u64" where
  "float64_of_float32 b =
     (case decode32 b of
        Finite s m e \<Rightarrow> of_nat (round_fmt 52 11 s m e)
      | Infinite s \<Rightarrow> of_nat (infinity_bits 52 11 s)
      | NotANumber \<Rightarrow>
          push_bit 32 (ucast (b AND 0x80000000)) OR 0x7FF8000000000000 OR
          push_bit 29 (ucast (b AND 0x7FFFFF)))"

definition float32_of_float64 :: "u64 \<Rightarrow> u32" where
  "float32_of_float64 b =
     (case decode64 b of
        Finite s m e \<Rightarrow> of_nat (round_fmt 23 8 s m e)
      | Infinite s \<Rightarrow> of_nat (infinity_bits 23 8 s)
      | NotANumber \<Rightarrow>
          ucast (drop_bit 32 b AND 0x80000000) OR 0x7FC00000 OR
          ucast (drop_bit 29 b AND 0x7FFFFF))"

definition float64_of_int :: "int \<Rightarrow> u64" where
  "float64_of_int i = of_nat (round_fmt 52 11 (i < 0) (nat \<bar>i\<bar>) 0)"

definition truncate_flt :: "bool \<Rightarrow> nat \<Rightarrow> int \<Rightarrow> int" where
  "truncate_flt s m e =
     (let a = (if 0 \<le> e then m * 2 ^ nat e else m div 2 ^ nat (- e))
      in if s then - int a else int a)"

text \<open>
  A conversion to an integer type that cannot hold the truncated value has an
  implementation-specific result, the argument \<open>other\<close>.
\<close>

definition int64_of_flt :: "u64 \<Rightarrow> flt \<Rightarrow> u64" where
  "int64_of_flt other x =
     (case x of
        Finite s m e \<Rightarrow>
          (let i = truncate_flt s m e in if - (2 ^ 63) \<le> i \<and> i < 2 ^ 63 then of_int i else other)
      | _ \<Rightarrow> other)"

definition uint64_of_flt :: "u64 \<Rightarrow> flt \<Rightarrow> u64" where
  "uint64_of_flt other x =
     (case x of
        Finite s m e \<Rightarrow>
          (let i = truncate_flt s m e in if 0 \<le> i \<and> i < 2 ^ 64 then of_int i else other)
      | _ \<Rightarrow> other)"

definition flt_nonneg :: "flt \<Rightarrow> bool" where
  "flt_nonneg x \<longleftrightarrow>
     (case x of Finite s m e \<Rightarrow> \<not> s \<or> m = 0 | Infinite s \<Rightarrow> \<not> s | NotANumber \<Rightarrow> False)"

definition flt_nonzero :: "flt \<Rightarrow> bool" where
  "flt_nonzero x \<longleftrightarrow> (case x of Finite s m e \<Rightarrow> m \<noteq> 0 | _ \<Rightarrow> True)"

text \<open>\<open>x < -MaxFloat32 || x > MaxFloat32\<close>\<close>

definition exceeds_float32 :: "flt \<Rightarrow> bool" where
  "exceeds_float32 x \<longleftrightarrow>
     (case x of
        Finite s m e \<Rightarrow>
          (if e \<le> 104 then (2 ^ 24 - 1) * 2 ^ nat (104 - e) < m else 2 ^ 24 - 1 < m * 2 ^ nat (e - 104))
      | Infinite s \<Rightarrow> True
      | NotANumber \<Rightarrow> False)"

section \<open>Rounding of exact values\<close>

lemma nbits_bounds: "0 < n \<Longrightarrow> 2 ^ (nbits n - 1) \<le> n \<and> n < 2 ^ nbits n \<and> 0 < nbits n"
proof (induction n rule: nbits.induct)
  case (1 n)
  show ?case
  proof (cases "n div 2 = 0")
    case True
    then have "n = 1" using 1(2) by simp
    then show ?thesis by (simp add: nbits.simps)
  next
    case False
    then obtain k where k: "nbits (n div 2) = Suc k" using 1 by (metis gr0_conv_Suc neq0_conv)
    then have "2 ^ k \<le> n div 2" "n div 2 < 2 ^ Suc k" using 1 False by auto
    then have "2 ^ Suc k \<le> n" "n < 2 ^ Suc (Suc k)" by (simp_all add: div_less_iff_less_mult)
    then show ?thesis using k 1(2) by (simp add: nbits.simps [of n])
  qed
qed

lemma nbits_unique: "2 ^ k \<le> n \<Longrightarrow> n < 2 ^ Suc k \<Longrightarrow> nbits n = Suc k"
proof -
  assume a: "2 ^ k \<le> n" "n < 2 ^ Suc k"
  then have "0 < n" using zero_less_power [of "2 :: nat" k] by simp
  from nbits_bounds [OF this] have b: "2 ^ (nbits n - 1) \<le> n" "n < 2 ^ nbits n" "0 < nbits n" by auto
  have "k < nbits n" using le_less_trans [OF a(1) b(2)] by simp
  moreover have "nbits n - 1 < Suc k" using le_less_trans [OF b(1) a(2)] by (simp del: power_Suc)
  ultimately show ?thesis using b(3) by simp
qed

lemma nbits_le: "m < 2 ^ p \<Longrightarrow> nbits m \<le> p"
proof (cases "m = 0")
  case False
  assume lt: "m < 2 ^ p"
  from False nbits_bounds [of m] have b: "2 ^ (nbits m - 1) \<le> m" "0 < nbits m" by simp_all
  show ?thesis using le_less_trans [OF b(1) lt] b(2) by simp
qed (simp add: nbits.simps)

lemma nbits_shift: "0 < m \<Longrightarrow> nbits (m * 2 ^ k) = nbits m + k"
proof -
  assume "0 < m"
  from nbits_bounds [OF this] obtain j where j: "nbits m = Suc j" "2 ^ j \<le> m" "m < 2 ^ Suc j"
    by (metis Suc_diff_1)
  have "nbits (m * 2 ^ k) = Suc (j + k)"
    by (rule nbits_unique) (use j in \<open>simp_all add: power_add\<close>)
  then show ?thesis using j by simp
qed

lemma round_even_exact: "round_even (m * 2 ^ k) k = m"
  by (simp add: round_even_def)

text \<open>A mantissa and exponent that a format can hold.\<close>

definition canonical :: "nat \<Rightarrow> nat \<Rightarrow> nat \<Rightarrow> int \<Rightarrow> bool" where
  "canonical f w m e \<longleftrightarrow> m < 2 ^ (f + 1) \<and> min_exp f w \<le> e \<and> (2 ^ f \<le> m \<or> e = min_exp f w)"

lemma canonical_exp:
  assumes "canonical f w m e" "0 < m"
  shows "max (e + int (nbits m) - int (f + 1)) (min_exp f w) = e"
proof (cases "2 ^ f \<le> m")
  case True
  then have "nbits m = Suc f" using assms(1) by (intro nbits_unique) (simp_all add: canonical_def)
  then show ?thesis using assms(1) by (simp add: canonical_def)
next
  case False
  then have "nbits m - 1 < f"
    using le_less_trans [of "2 ^ (nbits m - 1)" m "2 ^ f"] nbits_bounds [OF assms(2)] by simp
  then show ?thesis using assms(1) False by (auto simp: canonical_def)
qed

text \<open>Any representation of a canonical value rounds to it, whichever way it is scaled.\<close>

lemma round_parts_exact:
  assumes "canonical f w m e"
  shows "round_parts f w (m * 2 ^ k) (e - int k) = (m, e)"
proof (cases "m = 0")
  case True
  then have "e = min_exp f w" using assms by (auto simp: canonical_def)
  then show ?thesis using True by (simp add: round_parts_def nbits.simps round_even_def Let_def max_def)
next
  case False
  then have m: "0 < m" by simp
  have "max (e - int k + int (nbits (m * 2 ^ k)) - int (f + 1)) (min_exp f w) = e"
    using canonical_exp [OF assms m] nbits_shift [OF m, of k] by simp
  moreover have "m \<noteq> 2 ^ (f + 1)" using assms by (simp add: canonical_def)
  ultimately show ?thesis
    using round_even_exact [of m k] by (cases "k = 0") (simp_all add: round_parts_def Let_def)
qed

lemma round_parts_widen:
  assumes "0 < m" "nbits m \<le> f + 1" "k = f + 1 - nbits m" "min_exp f w \<le> e - int k"
  shows "round_parts f w m e = (m * 2 ^ k, e - int k)"
proof -
  have "max (e + int (nbits m) - int (f + 1)) (min_exp f w) = e - int k"
    using assms(2-4) by simp
  moreover have "m * 2 ^ k \<noteq> 2 ^ (f + 1)"
  proof
    assume "m * 2 ^ k = 2 ^ (f + 1)"
    then have "nbits m + k = Suc (f + 1)"
      using nbits_shift [OF assms(1), of k] nbits_unique [of "f + 1" "2 ^ (f + 1)"] by simp
    then show False using assms(2,3) by simp
  qed
  ultimately show ?thesis by (simp add: round_parts_def Let_def)
qed

section \<open>Bit patterns\<close>

lemma pack_fields:
  assumes "x < 2 ^ w" "r < 2 ^ f"
  shows "odd ((sign_bit f w s + x * 2 ^ f + r) div 2 ^ (f + w)) = s"
    and "(sign_bit f w s + x * 2 ^ f + r) div 2 ^ f mod 2 ^ w = x"
    and "(sign_bit f w s + x * 2 ^ f + r) mod 2 ^ f = r"
proof -
  let ?b = "sign_bit f w s + x * 2 ^ f + r"
  let ?S = "if s then 1 else 0 :: nat"
  have b: "?b = r + 2 ^ f * (x + 2 ^ w * ?S)"
    by (simp add: sign_bit_def power_add algebra_simps)
  then show "?b mod 2 ^ f = r" using assms(2) by simp
  have d: "?b div 2 ^ f = x + 2 ^ w * ?S" using assms(2) unfolding b by simp
  then show "?b div 2 ^ f mod 2 ^ w = x" using assms(1) by simp
  have "?b div 2 ^ (f + w) = (x + 2 ^ w * ?S) div 2 ^ w"
    unfolding power_add div_mult2_eq d ..
  then show "odd (?b div 2 ^ (f + w)) = s" using assms(1) by simp
qed

text \<open>The largest exponent of a finite number.\<close>

definition finite_exp :: "nat \<Rightarrow> nat \<Rightarrow> int \<Rightarrow> bool" where
  "finite_exp f w e \<longleftrightarrow> e - min_exp f w + 2 < 2 ^ w"

lemma pack_form:
  assumes "canonical f w m e" "finite_exp f w e"
  obtains x r where "pack f w s (m, e) = sign_bit f w s + x * 2 ^ f + r" "x + 1 < 2 ^ w" "r < 2 ^ f"
    "x = 0 \<and> m = r \<and> e = min_exp f w \<or> 0 < x \<and> m = 2 ^ f + r \<and> e = min_exp f w + int x - 1"
proof (cases "m < 2 ^ f")
  case True
  then have e: "e = min_exp f w" using assms(1) by (simp add: canonical_def)
  then have "int (0 + 2) < int (2 ^ w)" using assms(2) by (simp add: finite_exp_def)
  then have "(0 :: nat) + 1 < 2 ^ w" by linarith
  with that [of 0 m] True e show thesis by (simp add: pack_def)
next
  case False
  define x r where "x = nat (e - min_exp f w + 1)" and "r = m - 2 ^ f"
  have ge: "min_exp f w \<le> e" using assms(1) by (simp add: canonical_def)
  then have "int (x + 1) < int (2 ^ w)" using assms(2) by (simp add: finite_exp_def x_def)
  then have x: "0 < x" "x + 1 < 2 ^ w" using ge by (simp_all only: of_nat_less_iff, simp add: x_def)
  have r: "r < 2 ^ f" "m = 2 ^ f + r"
    using assms(1) False by (simp_all add: canonical_def r_def) linarith
  have "\<not> 2 ^ w - 1 \<le> x" using x(2) by linarith
  then have "pack f w s (m, e) = sign_bit f w s + x * 2 ^ f + r"
    using False by (simp add: pack_def Let_def flip: x_def r_def)
  moreover have "e = min_exp f w + int x - 1" using ge by (simp add: x_def)
  ultimately show thesis using that x r by blast
qed

lemma decode_pack:
  assumes "canonical f w m e" "finite_exp f w e"
  shows "decode_fmt f w (pack f w s (m, e)) = Finite s m e"
proof -
  obtain x r where p: "pack f w s (m, e) = sign_bit f w s + x * 2 ^ f + r" "x + 1 < 2 ^ w" "r < 2 ^ f"
    "x = 0 \<and> m = r \<and> e = min_exp f w \<or> 0 < x \<and> m = 2 ^ f + r \<and> e = min_exp f w + int x - 1"
    by (rule pack_form [OF assms])
  have "x \<noteq> 2 ^ w - 1" "x < 2 ^ w" using p(2) by linarith+
  with pack_fields [OF this(2) p(3), of s] p(4) show ?thesis
    unfolding p(1) by (auto simp: decode_fmt_def Let_def)
qed

lemma pack_bound:
  assumes "canonical f w m e" "finite_exp f w e"
  shows "pack f w s (m, e) < 2 ^ (f + w + 1)"
proof -
  obtain x r where p: "pack f w s (m, e) = sign_bit f w s + x * 2 ^ f + r" "x + 1 < 2 ^ w" "r < 2 ^ f"
    by (rule pack_form [OF assms])
  have "(x + 1) * 2 ^ f \<le> 2 ^ w * 2 ^ f" using p(2) by (intro mult_le_mono1) simp
  then have "x * 2 ^ f + r < 2 ^ w * 2 ^ f" using p(3) by simp
  moreover have "sign_bit f w s \<le> 2 ^ (f + w)" by (simp add: sign_bit_def)
  moreover have "(2 :: nat) ^ (f + w + 1) = 2 ^ (f + w) + 2 ^ w * 2 ^ f" by (simp add: power_add)
  ultimately show ?thesis unfolding p(1) by linarith
qed

lemma pattern_fields:
  assumes "b < 2 ^ (f + w + 1)"
  shows "b = sign_bit f w (odd (b div 2 ^ (f + w))) + b div 2 ^ f mod 2 ^ w * 2 ^ f + b mod 2 ^ f"
proof -
  let ?X = "b div 2 ^ (f + w)" and ?x = "b div 2 ^ f mod 2 ^ w"
  have "?X < 2" using assms by (simp add: div_less_iff_less_mult mult.commute)
  then have "?X = 0 \<or> ?X = 1" by (simp only: less_2_cases_iff One_nat_def)
  then have sign: "sign_bit f w (odd ?X) = ?X * 2 ^ (f + w)"
    by (elim disjE) (simp_all only: sign_bit_def, simp_all)
  have "?X = b div 2 ^ f div 2 ^ w" unfolding power_add by (rule div_mult2_eq)
  then have "?X * 2 ^ (f + w) = (b div 2 ^ f div 2 ^ w * 2 ^ w) * 2 ^ f"
    by (simp only: power_add mult.assoc mult.commute [of "2 ^ f"])
  moreover have "(b div 2 ^ f div 2 ^ w * 2 ^ w + ?x) * 2 ^ f + b mod 2 ^ f = b"
    by (simp only: div_mult_mod_eq)
  ultimately show ?thesis unfolding sign by (simp only: distrib_right)
qed

lemma pack_decode:
  assumes "decode_fmt f w b = Finite s m e" "b < 2 ^ (f + w + 1)" "2 \<le> w"
  shows "pack f w s (m, e) = b \<and> canonical f w m e \<and> finite_exp f w e"
proof -
  define x r t where "x = b div 2 ^ f mod 2 ^ w" and "r = b mod 2 ^ f" and "t = odd (b div 2 ^ (f + w))"
  have b: "b = sign_bit f w t + x * 2 ^ f + r"
    unfolding x_def r_def t_def by (rule pattern_fields [OF assms(2)])
  have "r < 2 ^ f" and x: "x < 2 ^ w" by (simp_all add: x_def r_def)
  then have r: "r < 2 ^ f" "r < 2 * 2 ^ f" by linarith+
  have "(4 :: int) = 2 ^ 2" by simp
  also have "(2 :: int) ^ 2 \<le> 2 ^ w" using assms(3) by (rule power_increasing) simp
  finally have big: "(4 :: int) \<le> 2 ^ w" .
  have d: "(if x = 2 ^ w - 1 then (if r = 0 then Infinite t else NotANumber)
      else if x = 0 then Finite t r (min_exp f w)
      else Finite t (2 ^ f + r) (min_exp f w + int x - 1)) = Finite s m e"
    using assms(1) by (simp only: decode_fmt_def Let_def flip: x_def r_def t_def)
  then have ne: "x \<noteq> 2 ^ w - 1" and s: "s = t" by (auto split: if_splits)
  show ?thesis
  proof (cases "x = 0")
    case True
    then have "m = r" "e = min_exp f w" using d ne by simp_all
    then show ?thesis using b r s big True by (simp add: pack_def canonical_def finite_exp_def)
  next
    case False
    then have z: "m = 2 ^ f + r" "e = min_exp f w + int x - 1" using d ne by simp_all
    have "x + 1 < 2 ^ w" and nx: "\<not> 2 ^ w - 1 \<le> x" using ne x by linarith+
    then have "int (x + 1) < int (2 ^ w)" by (simp only: of_nat_less_iff)
    then have "int x + 1 < 2 ^ w" by simp
    moreover have "nat (e - min_exp f w + 1) = x" using z by simp
    ultimately show ?thesis
      using z b r s nx False by (simp add: pack_def canonical_def finite_exp_def Let_def)
  qed
qed

section \<open>Widening loses nothing\<close>

lemma widen_canonical:
  assumes "canonical 23 8 m e" "finite_exp 23 8 e" "0 < m"
  obtains k where "round_parts 52 11 m e = (m * 2 ^ k, e - int k)"
    "canonical 52 11 (m * 2 ^ k) (e - int k)" "finite_exp 52 11 (e - int k)" "e - int k \<le> 104"
proof -
  define k where "k = 53 - nbits m"
  have "nbits m \<le> 24"
    using assms(1) nbits_le [of m 24] by (simp add: canonical_def)
  then have n: "nbits m + k = 53" "k \<le> 53" by (simp_all add: k_def)
  have e: "- 149 \<le> e" "e \<le> 104" using assms(1,2) by (simp_all add: canonical_def finite_exp_def min_exp_def)
  have rp: "round_parts 52 11 m e = (m * 2 ^ k, e - int k)"
    using \<open>nbits m \<le> 24\<close> e(1) by (intro round_parts_widen [OF assms(3)]) (simp_all add: k_def min_exp_def)
  have "nbits (m * 2 ^ k) = 53" using nbits_shift [OF assms(3), of k] n by simp
  then have "2 ^ 52 \<le> m * 2 ^ k" "m * 2 ^ k < 2 ^ 53"
    using nbits_bounds [of "m * 2 ^ k"] assms(3) by simp_all
  then have "canonical 52 11 (m * 2 ^ k) (e - int k)" "finite_exp 52 11 (e - int k)" "e - int k \<le> 104"
    using e n by (simp_all add: canonical_def finite_exp_def min_exp_def)
  with rp show thesis by (rule that)
qed

text \<open>
  A finite float32 that is widened and narrowed again is the same bit pattern, and it is
  within the range test on the way.
\<close>

lemma float32_roundtrip:
  assumes "decode32 b = Finite s m e"
  shows "float32_of_float64 (float64_of_float32 b) = b"
    and "\<not> exceeds_float32 (decode64 (float64_of_float32 b))"
    and "decode64 (float64_of_float32 b) \<noteq> NotANumber"
proof -
  have d: "decode_fmt 23 8 (unat b) = Finite s m e" using assms by (simp add: decode32_def)
  have "unat b < 2 ^ (23 + 8 + 1)" using unsigned_less [of b, where ?'a = nat] by simp
  from pack_decode [OF d this] have p: "pack 23 8 s (m, e) = unat b" and
    c: "canonical 23 8 m e" and fe: "finite_exp 23 8 e" by simp_all
  have "float32_of_float64 (float64_of_float32 b) = b \<and>
    (\<exists>m' e'. decode64 (float64_of_float32 b) = Finite s m' e' \<and> \<not> exceeds_float32 (Finite s m' e'))"
  proof (cases "m = 0")
    case True
    then have "pack 23 8 s (0, - 149) = unat b" using p c by (auto simp: canonical_def min_exp_def)
    then have b: "sign_bit 23 8 s = unat b" by (simp add: pack_def Let_def)
    have rp: "round_fmt f w s 0 x = sign_bit f w s" for f w x
      by (simp add: round_fmt_def round_parts_def round_even_def pack_def Let_def)
    have "decode64 (float64_of_float32 b) = Finite s 0 (- 1074)"
      using True decode_pack [of 52 11 0 "- 1074" s]
      by (simp add: float64_of_float32_def assms rp decode64_def unsigned_of_nat sign_bit_def take_bit_nat_eq_self
          canonical_def finite_exp_def min_exp_def pack_def Let_def split: if_splits)
    then show ?thesis
      using b by (simp add: float32_of_float64_def rp exceeds_float32_def)
  next
    case False
    then have m: "0 < m" by simp
    obtain k where k: "round_parts 52 11 m e = (m * 2 ^ k, e - int k)"
      "canonical 52 11 (m * 2 ^ k) (e - int k)" "finite_exp 52 11 (e - int k)" "e - int k \<le> 104"
      by (rule widen_canonical [OF c fe m])
    have "pack 52 11 s (m * 2 ^ k, e - int k) < 2 ^ 64" using pack_bound [OF k(2,3), of s] by simp
    then have "unat (float64_of_float32 b) = pack 52 11 s (m * 2 ^ k, e - int k)"
      by (simp add: float64_of_float32_def assms round_fmt_def k(1) unsigned_of_nat take_bit_nat_eq_self)
    then have w: "decode64 (float64_of_float32 b) = Finite s (m * 2 ^ k) (e - int k)"
      by (simp add: decode64_def decode_pack [OF k(2,3)])
    then have "float32_of_float64 (float64_of_float32 b) = of_nat (pack 23 8 s (m, e))"
      by (simp add: float32_of_float64_def round_fmt_def round_parts_exact [OF c])
    moreover have "\<not> exceeds_float32 (Finite s (m * 2 ^ k) (e - int k))"
    proof -
      have "nat (104 - (e - int k)) = nat (104 - e) + k"
        using fe by (simp add: finite_exp_def min_exp_def)
      moreover have "m * 2 ^ k \<le> (2 ^ 24 - 1) * 2 ^ (nat (104 - e) + k)"
        using c by (simp add: canonical_def power_add mult_le_mono)
      ultimately show ?thesis using k(4) by (simp add: exceeds_float32_def)
    qed
    ultimately show ?thesis using p w by simp
  qed
  then show "float32_of_float64 (float64_of_float32 b) = b"
    "\<not> exceeds_float32 (decode64 (float64_of_float32 b))"
    "decode64 (float64_of_float32 b) \<noteq> NotANumber" by auto
qed

end
