(* ===== verification/GoFormat.thy ===== *)
theory GoFormat
  imports ParamValues GoFloat "HOL-Library.Char_ord" "HOL-Library.List_Lexorder"
begin

text \<open>
  What \<open>fmt.Sprint\<close> prints for the values the program holds, and the parts of the standard
  library that stay parameters: the conversions between decimal text and floats, the JSON
  decoder, and the results of float-to-integer conversions that the language leaves to the
  implementation.
\<close>

record golib =
  lib_ParseFloat32 :: "string \<Rightarrow> u32 option"
  lib_ParseFloat64 :: "string \<Rightarrow> u64 option"
  lib_FormatFloat32 :: "u32 \<Rightarrow> string"
  lib_FormatFloat64 :: "u64 \<Rightarrow> string"
  lib_json_floats :: "string \<Rightarrow> u32 list option"
  lib_json_object :: "string \<Rightarrow> (string \<times> gvalue) list option"
  lib_int64_other :: "gvalue \<Rightarrow> u64"
  lib_uint64_other :: "gvalue \<Rightarrow> u64"

fun join :: "string \<Rightarrow> string list \<Rightarrow> string" where
  "join sep [] = []"
| "join sep [s] = s"
| "join sep (s # ss) = s @ sep @ join sep ss"

definition Sprint_node :: "NodeTopology \<Rightarrow> string" where
  "Sprint_node n = ''{'' @ join '' '' [nt_EID n, nt_Type n, nt_State n, nt_Parent n] @ ''}''"

text \<open>Maps are printed in the order of their keys.\<close>

fun Sprint :: "golib \<Rightarrow> gvalue \<Rightarrow> string" where
  "Sprint lib VNil = ''<nil>''"
| "Sprint lib (VBool b) = (if b then ''true'' else ''false'')"
| "Sprint lib (VInt i) = Itoa (sint i)"
| "Sprint lib (VInt8 i) = Itoa (sint i)"
| "Sprint lib (VInt16 i) = Itoa (sint i)"
| "Sprint lib (VInt32 i) = Itoa (sint i)"
| "Sprint lib (VInt64 i) = Itoa (sint i)"
| "Sprint lib (VUint i) = Itoa (uint i)"
| "Sprint lib (VUint8 i) = Itoa (uint i)"
| "Sprint lib (VUint16 i) = Itoa (uint i)"
| "Sprint lib (VUint32 i) = Itoa (uint i)"
| "Sprint lib (VUint64 i) = Itoa (uint i)"
| "Sprint lib (VFloat32 b) = lib_FormatFloat32 lib b"
| "Sprint lib (VFloat64 b) = lib_FormatFloat64 lib b"
| "Sprint lib (VString s) = s"
| "Sprint lib (VBytes bs) = ''['' @ join '' '' (map (\<lambda>b. Itoa (uint b)) bs) @ '']''"
| "Sprint lib (VFloat32s fs) = ''['' @ join '' '' (map (lib_FormatFloat32 lib) fs) @ '']''"
| "Sprint lib (VUint16s us) = ''['' @ join '' '' (map (\<lambda>u. Itoa (uint u)) us) @ '']''"
| "Sprint lib (VTopo ns) = ''['' @ join '' '' (map Sprint_node ns) @ '']''"
| "Sprint lib (VObject kvs) =
     ''map['' @ join '' '' (map (\<lambda>(k, s). k @ '':'' @ s)
       (sort_key fst (map (\<lambda>(k, v). (k, Sprint lib v)) kvs))) @ '']''"

lemma dec_digits_nonempty: "dec_digits n \<noteq> []"
  by (subst dec_digits.simps) simp

lemma Itoa_nonempty [simp]: "Itoa i \<noteq> []"
  by (simp add: Itoa_def dec_digits_nonempty)

lemma dec_digits_zero: "dec_digits n = ''0'' \<longleftrightarrow> n = 0"
proof (cases "n < 10")
  case True
  then have "n \<in> {0, 1, 2, 3, 4, 5, 6, 7, 8, 9}" by (simp, arith)
  then show ?thesis by (subst dec_digits.simps) auto
next
  case False
  then have "2 \<le> length (dec_digits n)"
    by (subst dec_digits.simps) (simp add: dec_digits_nonempty Suc_le_eq)
  then have "dec_digits n \<noteq> ''0''" by auto
  with False show ?thesis by simp
qed

lemma Itoa_zero: "Itoa i = ''0'' \<longleftrightarrow> i = 0"
  by (auto simp: Itoa_def dec_digits_zero)

end
