(* ===== verification/ConfigState.thy ===== *)
theory ConfigState
  imports ParamTable GoFormat "HOL-Library.Multiset"
begin

text \<open>
  The shared state of package \<open>config\<close> and its operations: the static resources and the
  runtime values (\<open>config.go\<close>), the EID directory (\<open>idToDevice.go\<close>) and the topology
  cache (\<open>global.go\<close>). Operations pass the state explicitly; they are polymorphic in the
  record extension, so the parsers and the driver use them on their larger states.
\<close>

section \<open>Configuration data\<close>

record DeviceEntry =
  de_Name :: string
  de_ProfileName :: string

record ResourceProperty =
  rp_ValueType :: string
  rp_ReadWrite :: string
  rp_Units :: string
  rp_DefaultValue :: string

record DeviceResource =
  dr_Name :: string
  dr_IsHidden :: bool
  dr_Description :: string
  dr_Properties :: ResourceProperty

record config_state =
  resourcesMap :: "DeviceResource list gomap"
  ValuesMap :: "gvalue gomap gomap"
  SensorIDToDeviceName :: "string gomap"
  TopoList :: "NodeTopology list"
  Resources1 :: "gvalue gomap"
  ResourcesFlag :: bool
  WriteChan :: "string list"
  WriteChan_closed :: bool

definition initial_config :: config_state where
  "initial_config = \<lparr>resourcesMap = [], ValuesMap = [],
     SensorIDToDeviceName = [(''238A08262319'', ''Data-Demo'')],
     TopoList = [], Resources1 = [], ResourcesFlag = False, WriteChan = [], WriteChan_closed = False\<rparr>"

text \<open>
  What the program takes from outside besides \<open>golib\<close>: the files and the YAML decoder.
\<close>

record 'e filesystem =
  fs_ReadFile :: "string \<Rightarrow> 'e + bytes"
  fs_Join :: "string \<Rightarrow> string \<Rightarrow> string"
  yaml_devices :: "bytes \<Rightarrow> 'e + DeviceEntry list"
  yaml_profile :: "bytes \<Rightarrow> 'e + DeviceResource list"

section \<open>config.go\<close>

definition parseDefaultValue :: "golib \<Rightarrow> string \<Rightarrow> string \<Rightarrow> gvalue" where
  "parseDefaultValue lib valStr vt =
     (if vt = ''Float32'' then
        (case lib_ParseFloat32 lib valStr of Some f \<Rightarrow> VFloat32 f | None \<Rightarrow> VString valStr)
      else if vt = ''Uint16'' then
        (case ParseUint 16 valStr of Some u \<Rightarrow> VUint16 (of_nat u) | None \<Rightarrow> VString valStr)
      else if vt = ''Uint8'' then
        (case ParseUint 8 valStr of Some u \<Rightarrow> VUint8 (of_nat u) | None \<Rightarrow> VString valStr)
      else if vt = ''Bool'' then
        (case ParseBool valStr of Some b \<Rightarrow> VBool b | None \<Rightarrow> VString valStr)
      else if vt = ''Float32Array'' then
        (case lib_json_floats lib valStr of Some arr \<Rightarrow> VFloat32s arr | None \<Rightarrow> VString valStr)
      else if vt = ''Object'' then
        (case lib_json_object lib valStr of Some obj \<Rightarrow> VObject obj | None \<Rightarrow> VString valStr)
      else VString valStr)"

datatype 'e init_error =
    ReadDevices 'e | DecodeDevices 'e | ReadProfile string 'e | DecodeProfile string 'e

definition load_defaults :: "golib \<Rightarrow> DeviceResource list \<Rightarrow> gvalue gomap" where
  "load_defaults lib drs =
     fold (\<lambda>dr m. mput (dr_Name dr)
            (parseDefaultValue lib (rp_DefaultValue (dr_Properties dr)) (rp_ValueType (dr_Properties dr))) m)
       drs []"

fun init_entries :: "golib \<Rightarrow> ('e, 'f) filesystem_scheme \<Rightarrow> string \<Rightarrow> DeviceEntry list \<Rightarrow>
    'a config_state_scheme \<Rightarrow> 'e init_error option \<times> 'a config_state_scheme" where
  "init_entries lib fs dir [] st = (None, st)"
| "init_entries lib fs dir (entry # es) st =
     (let profileFile = fs_Join fs dir (de_ProfileName entry @ ''.yaml'') in
      case fs_ReadFile fs profileFile of
        Inl e \<Rightarrow> (Some (ReadProfile profileFile e), st)
      | Inr raw \<Rightarrow>
          (case yaml_profile fs raw of
             Inl e \<Rightarrow> (Some (DecodeProfile profileFile e), st)
           | Inr drs \<Rightarrow>
               init_entries lib fs dir es
                 (st\<lparr>resourcesMap := mput (de_Name entry) drs (resourcesMap st),
                     ValuesMap := mput (de_Name entry) (load_defaults lib drs) (ValuesMap st)\<rparr>)))"

definition InitDeviceResources :: "golib \<Rightarrow> ('e, 'f) filesystem_scheme \<Rightarrow> string \<Rightarrow> string \<Rightarrow>
    'a config_state_scheme \<Rightarrow> 'e init_error option \<times> 'a config_state_scheme" where
  "InitDeviceResources lib fs devicesPath profilesDir st =
     (case fs_ReadFile fs devicesPath of
        Inl e \<Rightarrow> (Some (ReadDevices e), st)
      | Inr raw \<Rightarrow>
          (case yaml_devices fs raw of
             Inl e \<Rightarrow> (Some (DecodeDevices e), st)
           | Inr devs \<Rightarrow> init_entries lib fs profilesDir devs st))"

definition GetDeviceResources :: "string \<Rightarrow> 'a config_state_scheme \<Rightarrow> DeviceResource list option" where
  "GetDeviceResources deviceName st = mget (resourcesMap st) deviceName"

definition ensure_device :: "string \<Rightarrow> gvalue gomap gomap \<Rightarrow> gvalue gomap gomap" where
  "ensure_device d m = (case mget m d of None \<Rightarrow> mput d [] m | Some _ \<Rightarrow> m)"

definition device_values :: "string \<Rightarrow> gvalue gomap gomap \<Rightarrow> gvalue gomap" where
  "device_values d m = (case mget m d of None \<Rightarrow> [] | Some vs \<Rightarrow> vs)"

definition SetDeviceValue :: "string \<Rightarrow> string \<Rightarrow> gvalue \<Rightarrow>
    'a config_state_scheme \<Rightarrow> 'a config_state_scheme" where
  "SetDeviceValue deviceName resourceName v st =
     (let m = ensure_device deviceName (ValuesMap st)
      in st\<lparr>ValuesMap := mput deviceName (mput resourceName v (device_values deviceName m)) m\<rparr>)"

definition GetDeviceValue :: "string \<Rightarrow> string \<Rightarrow> 'a config_state_scheme \<Rightarrow> gvalue option" where
  "GetDeviceValue deviceName resourceName st =
     (case mget (ValuesMap st) deviceName of
        None \<Rightarrow> None
      | Some deviceValues \<Rightarrow> mget deviceValues resourceName)"

definition GetDeviceValues :: "string \<Rightarrow> 'a config_state_scheme \<Rightarrow> gvalue gomap option" where
  "GetDeviceValues deviceName st =
     (case mget (ValuesMap st) deviceName of
        None \<Rightarrow> None
      | Some vals \<Rightarrow> Some (fold (\<lambda>(k, v) copyMap. mput k v copyMap) vals []))"

definition DeviceInit :: "golib \<Rightarrow> string \<Rightarrow> string \<Rightarrow> string \<Rightarrow> string \<Rightarrow>
    'a config_state_scheme \<Rightarrow> 'a config_state_scheme" where
  "DeviceInit lib deviceName resourceName defaultValue valueType st =
     (let m = ensure_device deviceName (ValuesMap st);
          parsedValue = parseDefaultValue lib defaultValue valueType
      in st\<lparr>ValuesMap := mput deviceName (mput resourceName parsedValue (device_values deviceName m)) m\<rparr>)"

datatype config_error = NoDeviceValues string | NoMapping string

definition DeleteDeviceValues :: "string \<Rightarrow> 'a config_state_scheme \<Rightarrow>
    config_error option \<times> 'a config_state_scheme" where
  "DeleteDeviceValues deviceName st =
     (case mget (ValuesMap st) deviceName of
        None \<Rightarrow> (Some (NoDeviceValues deviceName), st)
      | Some _ \<Rightarrow> (None, st\<lparr>ValuesMap := mdel deviceName (ValuesMap st)\<rparr>))"

definition DeleteSensorIDMappingsByDevice :: "string \<Rightarrow>
    'a config_state_scheme \<Rightarrow> 'a config_state_scheme" where
  "DeleteSensorIDMappingsByDevice deviceName st =
     (let toDelete = map fst (filter (\<lambda>(sensorID, mapped). mapped = deviceName) (SensorIDToDeviceName st))
      in st\<lparr>SensorIDToDeviceName := fold mdel toDelete (SensorIDToDeviceName st)\<rparr>)"

section \<open>idToDevice.go\<close>

definition AddMapping :: "string \<Rightarrow> string \<Rightarrow> 'a config_state_scheme \<Rightarrow> 'a config_state_scheme" where
  "AddMapping sensorID deviceName st =
     st\<lparr>SensorIDToDeviceName := mput sensorID deviceName (SensorIDToDeviceName st)\<rparr>"

definition DeleteMapping :: "string \<Rightarrow> 'a config_state_scheme \<Rightarrow>
    config_error option \<times> 'a config_state_scheme" where
  "DeleteMapping sensorID st =
     (case mget (SensorIDToDeviceName st) sensorID of
        None \<Rightarrow> (Some (NoMapping sensorID), st)
      | Some _ \<Rightarrow> (None, st\<lparr>SensorIDToDeviceName := mdel sensorID (SensorIDToDeviceName st)\<rparr>))"

definition UpdateMapping :: "string \<Rightarrow> string \<Rightarrow> 'a config_state_scheme \<Rightarrow>
    config_error option \<times> 'a config_state_scheme" where
  "UpdateMapping sensorID newDeviceName st =
     (case mget (SensorIDToDeviceName st) sensorID of
        None \<Rightarrow> (Some (NoMapping sensorID), st)
      | Some _ \<Rightarrow>
          (None, st\<lparr>SensorIDToDeviceName := mput sensorID newDeviceName (SensorIDToDeviceName st)\<rparr>))"

definition LookupDeviceName :: "string \<Rightarrow> 'a config_state_scheme \<Rightarrow> string option" where
  "LookupDeviceName sensorID st = mget (SensorIDToDeviceName st) sensorID"

text \<open>
  \<open>UpdateSensorMapping\<close> ranges over \<open>ValuesMap\<close>; the order of the iteration is the
  argument \<open>order\<close>, any permutation of the map's entries.
\<close>

definition eid_text :: "golib \<Rightarrow> gvalue \<Rightarrow> string" where
  "eid_text lib raw =
     (case raw of
        VString v \<Rightarrow> v
      | VBytes b \<Rightarrow> string_of_bytes b
      | v \<Rightarrow> Sprint lib v)"

definition device_eid :: "golib \<Rightarrow> gvalue gomap \<Rightarrow> string option" where
  "device_eid lib resourceMap =
     (case mget resourceMap ''eid'' of
        None \<Rightarrow> None
      | Some raw \<Rightarrow> (let eid = eid_text lib raw in if eid = [] then None else Some eid))"

fun map_eids :: "golib \<Rightarrow> gvalue gomap gomap \<Rightarrow> string gomap \<Rightarrow> string gomap" where
  "map_eids lib [] m = m"
| "map_eids lib ((deviceName, resourceMap) # rest) m =
     (case device_eid lib resourceMap of
        None \<Rightarrow> map_eids lib rest m
      | Some eid \<Rightarrow> map_eids lib rest (mput eid deviceName m))"

definition UpdateSensorMapping :: "golib \<Rightarrow> gvalue gomap gomap \<Rightarrow>
    'a config_state_scheme \<Rightarrow> 'a config_state_scheme" where
  "UpdateSensorMapping lib order st = st\<lparr>SensorIDToDeviceName := map_eids lib order []\<rparr>"

section \<open>global.go\<close>

definition GetTopoList :: "'a config_state_scheme \<Rightarrow> NodeTopology list" where
  "GetTopoList st = TopoList st"

text \<open>The call through a table entry: only the topology parser touches the shared state.\<close>

definition call_parser :: "parser \<Rightarrow> bytes \<Rightarrow> 'a config_state_scheme \<Rightarrow>
    ((parse_error + gvalue) \<times> 'a config_state_scheme) outcome" where
  "call_parser p data st =
     obind (run_parser p data) (\<lambda>r.
       Done (r, case r of Inr (VTopo ns) \<Rightarrow> st\<lparr>TopoList := ns\<rparr> | _ \<Rightarrow> st))"


section \<open>The store interface\<close>

text \<open>
  What the parsers and the driver rely on in a keyed store: a read after a write, and that
  a write keeps the store well formed. The runtime values and the EID directory are both
  such stores; the directory also deletes.
\<close>

locale kv_store =
  fixes put :: "'k \<Rightarrow> 'v \<Rightarrow> 's \<Rightarrow> 's"
    and get :: "'k \<Rightarrow> 's \<Rightarrow> 'v option"
    and wf :: "'s \<Rightarrow> bool"
  assumes get_put: "get k (put k' v s) = (if k = k' then Some v else get k s)"
    and wf_put: "wf s \<Longrightarrow> wf (put k v s)"
begin

lemma wf_puts: "wf s \<Longrightarrow> wf (fold (\<lambda>(k, v). put k v) kvs s)"
  by (induction kvs arbitrary: s) (auto intro: wf_put)

lemma get_puts:
  "get k (fold (\<lambda>(k, v). put k v) kvs s) =
     (case map_of (rev kvs) k of Some v \<Rightarrow> Some v | None \<Rightarrow> get k s)"
  by (induction kvs arbitrary: s) (auto simp: get_put map_add_def split: option.splits)

lemma get_puts_other: "k \<notin> fst ` set kvs \<Longrightarrow> get k (fold (\<lambda>(k, v). put k v) kvs s) = get k s"
  by (induction kvs arbitrary: s) (auto simp: get_put)

lemma put_grows: "get k s \<noteq> None \<Longrightarrow> get k (put k' v s) \<noteq> None"
  by (simp add: get_put)

end

locale kv_directory = kv_store +
  fixes del :: "'k \<Rightarrow> 's \<Rightarrow> 's"
  assumes get_del: "get k (del k' s) = (if k = k' then None else get k s)"
    and wf_del: "wf s \<Longrightarrow> wf (del k s)"
begin

lemma get_dels: "get k (fold del ks s) = (if k \<in> set ks then None else get k s)"
  by (induction ks arbitrary: s) (auto simp: get_del)

lemma wf_dels: "wf s \<Longrightarrow> wf (fold del ks s)"
  by (induction ks arbitrary: s) (auto intro: wf_del)

lemma del_after_put: "get k (del k (put k v s)) = None"
  by (simp add: get_del)

end

text \<open>Go maps themselves are directories.\<close>

interpretation gomap: kv_directory mput "\<lambda>k m. mget m k" wf_map mdel
  by unfold_locales (auto simp: mget_put mget_del)

definition wf_values :: "'a config_state_scheme \<Rightarrow> bool" where
  "wf_values st \<longleftrightarrow> wf_map (ValuesMap st) \<and> (\<forall>(d, vs) \<in> set (ValuesMap st). wf_map vs)"

lemma ensure_device_get:
  "mget (ensure_device d m) d' = (if d' = d then Some (device_values d m) else mget m d')"
  by (auto simp: ensure_device_def device_values_def mget_put split: option.splits)

lemma wf_values_put:
  assumes "wf_map m" "\<forall>(d, vs) \<in> set m. wf_map vs" "wf_map vs'"
  shows "wf_map (mput d vs' m) \<and> (\<forall>(d, vs) \<in> set (mput d vs' m). wf_map vs)"
proof -
  have "wf_map (mput d vs' m)" using assms(1) by simp
  moreover have "wf_map vs" if "(e, vs) \<in> set (mput d vs' m)" for e vs
    using that assms(2,3) by (auto dest!: update_Some_unfold [THEN iffD1]
        map_of_is_SomeI [rotated] simp: wf_map_in_iff [OF calculation] mget_put wf_map_in_iff [OF assms(1)]
        split: if_splits)
  ultimately show ?thesis by auto
qed

lemma wf_device_values: "wf_values st \<Longrightarrow> wf_map (device_values d (ValuesMap st))"
  by (auto simp: wf_values_def device_values_def split: option.splits dest!: map_of_SomeD)

lemma SetDeviceValue_get:
  "GetDeviceValue d r (SetDeviceValue d' r' v st) =
     (if d = d' \<and> r = r' then Some v else GetDeviceValue d r st)"
  by (auto simp: GetDeviceValue_def SetDeviceValue_def Let_def mget_put ensure_device_get
      device_values_def split: option.splits)

lemma wf_values_ensure: "wf_values st \<Longrightarrow>
    wf_map (ensure_device d (ValuesMap st)) \<and> (\<forall>(d, vs) \<in> set (ensure_device d (ValuesMap st)). wf_map vs)"
  using wf_values_put [of "ValuesMap st" "[]" d]
  by (auto simp: wf_values_def ensure_device_def split: option.splits)

lemma device_values_ensure: "device_values d (ensure_device d m) = device_values d m"
  by (simp add: device_values_def [of _ "ensure_device d m"] ensure_device_get)

lemma SetDeviceValue_wf: "wf_values st \<Longrightarrow> wf_values (SetDeviceValue d r v st)"
  using wf_values_put [of "ensure_device d (ValuesMap st)" "mput r v (device_values d (ValuesMap st))" d]
    wf_values_ensure [of st d] wf_device_values [of st d]
  by (simp add: SetDeviceValue_def Let_def wf_values_def device_values_ensure)

interpretation device_store: kv_store "\<lambda>(d, r). SetDeviceValue d r" "\<lambda>(d, r). GetDeviceValue d r"
    wf_values
  by unfold_locales (auto simp: SetDeviceValue_get SetDeviceValue_wf split: if_splits)

definition wf_eids :: "'a config_state_scheme \<Rightarrow> bool" where
  "wf_eids st \<longleftrightarrow> wf_map (SensorIDToDeviceName st)"

lemma DeleteMapping_lookup:
  "LookupDeviceName e (snd (DeleteMapping e' st)) = (if e = e' then None else LookupDeviceName e st)"
  by (auto simp: LookupDeviceName_def DeleteMapping_def mget_del split: option.splits)

interpretation eid_directory: kv_directory AddMapping LookupDeviceName wf_eids
    "\<lambda>e st. snd (DeleteMapping e st)"
  by unfold_locales (auto simp: AddMapping_def LookupDeviceName_def wf_eids_def mget_put
      DeleteMapping_lookup [unfolded LookupDeviceName_def] DeleteMapping_def mget_del split: option.splits)

lemma config_frame [simp]:
  "SensorIDToDeviceName (SetDeviceValue d r v st) = SensorIDToDeviceName st"
  "TopoList (SetDeviceValue d r v st) = TopoList st"
  "Resources1 (SetDeviceValue d r v st) = Resources1 st"
  "ResourcesFlag (SetDeviceValue d r v st) = ResourcesFlag st"
  "WriteChan (SetDeviceValue d r v st) = WriteChan st"
  "WriteChan_closed (SetDeviceValue d r v st) = WriteChan_closed st"
  "resourcesMap (SetDeviceValue d r v st) = resourcesMap st"
  "config_state.more (SetDeviceValue d r v st) = config_state.more st"
  by (simp_all add: SetDeviceValue_def Let_def)

lemma LookupDeviceName_Set [simp]: "LookupDeviceName e (SetDeviceValue d r v st) = LookupDeviceName e st"
  by (simp add: LookupDeviceName_def)

section \<open>The abstract view of the values\<close>

text \<open>
  Abstractly the runtime values are one partial function from device and resource to value
  together with the set of known devices.
\<close>

definition value_view :: "'a config_state_scheme \<Rightarrow> string \<Rightarrow> string \<Rightarrow> gvalue option" where
  "value_view st d r = GetDeviceValue d r st"

definition known_devices :: "'a config_state_scheme \<Rightarrow> string set" where
  "known_devices st = fst ` set (ValuesMap st)"

lemma known_devices_iff: "d \<in> known_devices st \<longleftrightarrow> mget (ValuesMap st) d \<noteq> None"
  by (simp add: known_devices_def dom_map_of_conv_image_fst [symmetric] domIff)

lemma known_devices_Set: "known_devices (SetDeviceValue d r v st) = insert d (known_devices st)"
  by (auto simp: known_devices_iff SetDeviceValue_def Let_def mget_put ensure_device_get split: if_splits)

lemma DeviceInit_is_Set:
  "DeviceInit lib d r dv vt st = SetDeviceValue d r (parseDefaultValue lib dv vt) st"
  by (simp add: DeviceInit_def SetDeviceValue_def)

lemma copy_map:
  "mget (fold (\<lambda>(k, v) m. mput k v m) vals []) r = map_of (rev vals) r"
  using gomap.get_puts [where k = r and kvs = vals and s = "[]"] by (simp split: option.splits)

lemma map_of_rev_distinct: "distinct (map fst xs) \<Longrightarrow> map_of (rev xs) = map_of xs"
  by (induction xs) (auto simp: map_add_comm [of "[_ \<mapsto> _]"] dom_map_of_conv_image_fst
      map_of_eq_None_iff)

lemma copy_map_wf: "wf_map vals \<Longrightarrow> mget (fold (\<lambda>(k, v) m. mput k v m) vals []) r = mget vals r"
  by (simp add: copy_map wf_map_def map_of_rev_distinct)

text \<open>C17: on well-formed states the operations on the runtime values refine the
  abstract view: a write updates exactly one cell and makes its device known, initialising
  a resource writes its converted default, deleting a device clears exactly its row or
  reports that the device is unknown, and reading a whole device returns its row.\<close>

theorem config_values_refine_view:
  assumes "wf_values st"
  shows "value_view (SetDeviceValue d r v st) = (value_view st)(d := (value_view st d)(r \<mapsto> v)) \<and>
    known_devices (SetDeviceValue d r v st) = insert d (known_devices st) \<and>
    value_view (DeviceInit lib d r dv vt st) =
      (value_view st)(d := (value_view st d)(r \<mapsto> parseDefaultValue lib dv vt)) \<and>
    (d \<in> known_devices st \<longrightarrow>
      fst (DeleteDeviceValues d st) = None \<and>
      value_view (snd (DeleteDeviceValues d st)) = (value_view st)(d := Map.empty) \<and>
      known_devices (snd (DeleteDeviceValues d st)) = known_devices st - {d}) \<and>
    (d \<notin> known_devices st \<longrightarrow>
      DeleteDeviceValues d st = (Some (NoDeviceValues d), st)) \<and>
    (d \<in> known_devices st \<longrightarrow>
      (\<exists>m. GetDeviceValues d st = Some m \<and> mget m = value_view st d)) \<and>
    (d \<notin> known_devices st \<longrightarrow>
      GetDeviceValues d st = None \<and> value_view st d = Map.empty)"
proof (intro conjI impI)
  show "value_view (SetDeviceValue d r v st) = (value_view st)(d := (value_view st d)(r \<mapsto> v))"
    and "value_view (DeviceInit lib d r dv vt st) =
      (value_view st)(d := (value_view st d)(r \<mapsto> parseDefaultValue lib dv vt))"
    by (auto simp: value_view_def SetDeviceValue_get DeviceInit_is_Set fun_eq_iff)
  show "known_devices (SetDeviceValue d r v st) = insert d (known_devices st)"
    by (rule known_devices_Set)
  show "fst (DeleteDeviceValues d st) = None"
    "value_view (snd (DeleteDeviceValues d st)) = (value_view st)(d := Map.empty)"
    "known_devices (snd (DeleteDeviceValues d st)) = known_devices st - {d}"
    if "d \<in> known_devices st"
    using that by (auto simp: known_devices_iff DeleteDeviceValues_def value_view_def
        GetDeviceValue_def mget_del fun_eq_iff split: if_splits)
  show "DeleteDeviceValues d st = (Some (NoDeviceValues d), st)" if "d \<notin> known_devices st"
    using that by (simp add: known_devices_iff DeleteDeviceValues_def)
  show "\<exists>m. GetDeviceValues d st = Some m \<and> mget m = value_view st d" if "d \<in> known_devices st"
  proof -
    obtain vals where vals: "mget (ValuesMap st) d = Some vals"
      using \<open>d \<in> known_devices st\<close> by (auto simp: known_devices_iff)
    then have "wf_map vals" using assms by (auto simp: wf_values_def dest: map_of_SomeD)
    then show ?thesis
      using vals by (auto simp: GetDeviceValues_def value_view_def GetDeviceValue_def fun_eq_iff
          copy_map_wf)
  qed
  show "GetDeviceValues d st = None" "value_view st d = Map.empty" if "d \<notin> known_devices st"
    using that by (auto simp: known_devices_iff GetDeviceValues_def value_view_def
        GetDeviceValue_def fun_eq_iff)
qed

definition demo_state :: config_state where
  "demo_state = SetDeviceValue ''Meter'' ''eid'' (VString ''0102'') initial_config"

lemma wf_demo_state: "wf_values demo_state"
  unfolding demo_state_def by (rule SetDeviceValue_wf) (simp add: wf_values_def initial_config_def)

theorem config_values_refine_view_witness:
  "fst (DeleteDeviceValues ''Meter'' demo_state) = None \<and>
   value_view (SetDeviceValue ''Meter'' ''temp'' (VUint8 7) demo_state) ''Meter'' ''temp'' = Some (VUint8 7) \<and>
   DeleteDeviceValues ''Other'' demo_state = (Some (NoDeviceValues ''Other''), demo_state)"
proof -
  have known: "''Meter'' \<in> known_devices demo_state" "''Other'' \<notin> known_devices demo_state"
    by (simp_all add: demo_state_def known_devices_Set) (simp add: known_devices_def initial_config_def)
  show ?thesis
    using config_values_refine_view [OF wf_demo_state, of "''Meter''" "''temp''" "VUint8 7"]
      config_values_refine_view [OF wf_demo_state, of "''Other''"] known
    by simp
qed

section \<open>The EID directory\<close>

definition eid_pairs :: "golib \<Rightarrow> gvalue gomap gomap \<Rightarrow> (string \<times> string) list" where
  "eid_pairs lib order =
     List.map_filter (\<lambda>(d, rm). map_option (\<lambda>e. (e, d)) (device_eid lib rm)) order"

lemma map_eids_fold: "map_eids lib order m = fold (\<lambda>(e, d). mput e d) (eid_pairs lib order) m"
  by (induction lib order m rule: map_eids.induct)
    (auto simp: eid_pairs_def map_filter_simps split: option.splits)

lemma eid_pairs_mem:
  "(e, d) \<in> set (eid_pairs lib order) \<longleftrightarrow> (\<exists>rm. (d, rm) \<in> set order \<and> device_eid lib rm = Some e)"
  by (induction order) (auto simp: eid_pairs_def map_filter_simps split: option.splits)

lemma eid_pairs_keys:
  "e \<in> fst ` set (eid_pairs lib order) \<longleftrightarrow> (\<exists>(d, rm) \<in> set order. device_eid lib rm = Some e)"
  by (induction order) (auto simp: eid_pairs_def map_filter_simps split: option.splits)

lemma directory_after_update:
  "LookupDeviceName e (UpdateSensorMapping lib order st) = map_of (rev (eid_pairs lib order)) e"
  using gomap.get_puts [where k = e and kvs = "eid_pairs lib order" and s = "[]"]
  by (simp add: LookupDeviceName_def UpdateSensorMapping_def map_eids_fold split: option.splits)

text \<open>C29: rebuilding the EID directory, in whatever order the map of values is
  iterated, leaves exactly the non-empty EID texts of the devices as keys, each naming a
  device that has this EID; where an EID belongs to one device only, the result does not
  depend on the order. Entries of before are gone.\<close>

theorem UpdateSensorMapping_correct:
  assumes "mset order = mset (ValuesMap st)"
  shows "(LookupDeviceName e (UpdateSensorMapping lib order st) = Some d \<longrightarrow>
      (\<exists>rm. (d, rm) \<in> set (ValuesMap st) \<and> device_eid lib rm = Some e)) \<and>
    (LookupDeviceName e (UpdateSensorMapping lib order st) = None \<longleftrightarrow>
      (\<forall>(d, rm) \<in> set (ValuesMap st). device_eid lib rm \<noteq> Some e)) \<and>
    ((d, rm) \<in> set (ValuesMap st) \<and> device_eid lib rm = Some e \<and>
      (\<forall>d' rm'. (d', rm') \<in> set (ValuesMap st) \<longrightarrow> device_eid lib rm' = Some e \<longrightarrow> d' = d) \<longrightarrow>
      LookupDeviceName e (UpdateSensorMapping lib order st) = Some d)"
proof (intro conjI impI)
  have set: "set order = set (ValuesMap st)" using assms by (rule mset_eq_setD)
  let ?l = "map_of (rev (eid_pairs lib order)) e"
  have some: "\<exists>rm. (d, rm) \<in> set (ValuesMap st) \<and> device_eid lib rm = Some e" if "?l = Some d" for d
    using map_of_SomeD [OF that] by (simp add: eid_pairs_mem set)
  have none: "?l = None \<longleftrightarrow> (\<forall>(d, rm) \<in> set (ValuesMap st). device_eid lib rm \<noteq> Some e)"
    by (simp add: map_of_eq_None_iff eid_pairs_keys set) blast
  show "\<exists>rm. (d, rm) \<in> set (ValuesMap st) \<and> device_eid lib rm = Some e"
    if "LookupDeviceName e (UpdateSensorMapping lib order st) = Some d"
    using that some by (simp add: directory_after_update)
  show "LookupDeviceName e (UpdateSensorMapping lib order st) = None \<longleftrightarrow>
      (\<forall>(d, rm) \<in> set (ValuesMap st). device_eid lib rm \<noteq> Some e)"
    using none by (simp add: directory_after_update)
  show "LookupDeviceName e (UpdateSensorMapping lib order st) = Some d"
    if u: "(d, rm) \<in> set (ValuesMap st) \<and> device_eid lib rm = Some e \<and>
      (\<forall>d' rm'. (d', rm') \<in> set (ValuesMap st) \<longrightarrow> device_eid lib rm' = Some e \<longrightarrow> d' = d)"
  proof -
    have "?l \<noteq> None" using none u by blast
    then obtain d' where l: "?l = Some d'" by blast
    then obtain rm' where "(d', rm') \<in> set (ValuesMap st)" "device_eid lib rm' = Some e"
      using some by blast
    then have "d' = d" using u by blast
    then show ?thesis using l by (simp add: directory_after_update)
  qed
qed

definition demo_lib :: golib where
  "demo_lib = \<lparr>lib_ParseFloat32 = (\<lambda>_. None), lib_ParseFloat64 = (\<lambda>_. None),
     lib_FormatFloat32 = (\<lambda>_. []), lib_FormatFloat64 = (\<lambda>_. []), lib_json_floats = (\<lambda>_. None),
     lib_json_object = (\<lambda>_. None), lib_int64_other = (\<lambda>_. 0), lib_uint64_other = (\<lambda>_. 0)\<rparr>"

theorem UpdateSensorMapping_correct_witness:
  "LookupDeviceName ''0102'' (UpdateSensorMapping demo_lib (ValuesMap demo_state) demo_state) = Some ''Meter''"
proof -
  have vm: "ValuesMap demo_state = [(''Meter'', [(''eid'', VString ''0102'')])]"
    by (simp add: demo_state_def SetDeviceValue_def initial_config_def ensure_device_def device_values_def)
  show ?thesis
    using UpdateSensorMapping_correct [where order = "ValuesMap demo_state" and st = demo_state and
        lib = demo_lib and e = "''0102''" and d = "''Meter''" and rm = "[(''eid'', VString ''0102'')]"]
    by (simp add: vm device_eid_def eid_text_def)
qed

lemma DeleteSensorIDMappings_lookup:
  assumes "wf_eids st"
  shows "LookupDeviceName e (DeleteSensorIDMappingsByDevice d st) =
    (if LookupDeviceName e st = Some d then None else LookupDeviceName e st)"
proof -
  let ?m = "SensorIDToDeviceName st"
  have "e \<in> set (map fst (filter (\<lambda>(s, x). x = d) ?m)) \<longleftrightarrow> mget ?m e = Some d"
    using assms by (force simp: wf_eids_def wf_map_in_iff [symmetric])
  then show ?thesis
    by (simp add: LookupDeviceName_def DeleteSensorIDMappingsByDevice_def gomap.get_dels)
qed

end
