(* ===== verification/ParamStream.thy ===== *)
theory ParamStream
  imports FrameBuild ConfigState
begin

text \<open>
  Reading a sequence of parameter items. Three loops of the code read the same layout (the
  uplink parser, the control-response parser and the parser of reassembled data); what they
  share is here: the reader of one item head, the wire format it accepts, the shape of the
  loop and the contract of its body.
\<close>

section \<open>The reader of an item head\<close>

text \<open>
  \<open>get16\<close> is the byte order the copy at hand uses for a two-byte length: little endian in
  \<open>StartParser\<close>, big endian in the two others.
\<close>

definition read_len :: "(bytes \<Rightarrow> u16 outcome) \<Rightarrow> slice \<Rightarrow> nat \<Rightarrow> u16 \<Rightarrow> (nat \<times> nat) outcome" where
  "read_len get16 s idx lenFlag =
     (if lenFlag = 0 then Done (4, idx)
      else if lenFlag = 1 then obind (sidx s idx) (\<lambda>b. Done (unat b, idx + 1))
      else if lenFlag = 2 then
        obind (ssub s idx (idx + 2)) (\<lambda>t. obind (get16 (vis t)) (\<lambda>w. Done (unat w, idx + 2)))
      else
        obind (sidx s idx) (\<lambda>a. obind (sidx s (idx + 1)) (\<lambda>b. obind (sidx s (idx + 2)) (\<lambda>c.
          Done (unat (push_bit 16 (ucast a) OR push_bit 8 (ucast b) OR ucast c :: u32), idx + 3)))))"

definition read_head :: "(bytes \<Rightarrow> u16 outcome) \<Rightarrow> slice \<Rightarrow> nat \<Rightarrow> (u16 \<times> nat \<times> nat) outcome" where
  "read_head get16 s idx =
     obind (ssub s idx (idx + 2)) (\<lambda>t.
     obind (le16_get (vis t)) (\<lambda>head16.
     obind (read_len get16 s (idx + 2) (head16 AND 0x3)) (\<lambda>(dataLen, j).
       Done (drop_bit 2 head16, dataLen, j))))"

lemma read_len_advances: "read_len get16 s idx f = Done (n, j) \<Longrightarrow> idx \<le> j \<and> j \<le> idx + 3"
  by (auto simp: read_len_def outcome_simps split: if_splits)

lemma read_head_advances: "read_head get16 s idx = Done (t, n, j) \<Longrightarrow> idx + 2 \<le> j \<and> j \<le> idx + 5"
  by (auto simp: read_head_def outcome_simps dest: read_len_advances)

section \<open>The wire format of an item\<close>

record wire_item =
  wi_type :: u16
  wi_flag :: u16
  wi_data :: bytes

definition wf_item :: "wire_item \<Rightarrow> bool" where
  "wf_item it \<longleftrightarrow> wi_type it < 0x4000 \<and>
     (wi_flag it = 0 \<and> length (wi_data it) = 4 \<or>
      wi_flag it = 1 \<and> length (wi_data it) < 2 ^ 8 \<or>
      wi_flag it = 2 \<and> length (wi_data it) < 2 ^ 16 \<or>
      wi_flag it = 3 \<and> length (wi_data it) < 2 ^ 24)"

definition len_field :: "(u16 \<Rightarrow> bytes) \<Rightarrow> u16 \<Rightarrow> nat \<Rightarrow> bytes" where
  "len_field put16 f n =
     (if f = 0 then []
      else if f = 1 then [of_nat n]
      else if f = 2 then put16 (of_nat n)
      else [of_nat (n div 65536), of_nat (n div 256), of_nat n])"

definition enc_head :: "(u16 \<Rightarrow> bytes) \<Rightarrow> wire_item \<Rightarrow> bytes" where
  "enc_head put16 it =
     le16_put (push_bit 2 (wi_type it) OR wi_flag it) @ len_field put16 (wi_flag it) (length (wi_data it))"

definition enc_item :: "(u16 \<Rightarrow> bytes) \<Rightarrow> wire_item \<Rightarrow> bytes" where
  "enc_item put16 it = enc_head put16 it @ wi_data it"

definition enc_items :: "(u16 \<Rightarrow> bytes) \<Rightarrow> wire_item list \<Rightarrow> bytes" where
  "enc_items put16 its = concat (map (enc_item put16) its)"

lemma wf_item_type: "wf_item it \<Longrightarrow> bit (wi_type it) n \<Longrightarrow> n < 14"
  by (rule bit_imp_less [of "wi_type it"]) (simp_all add: wf_item_def word_less_nat_alt)

lemma u16_and_3: "(w :: u16) AND 0x3 = take_bit 2 w"
  by (simp add: take_bit_eq_mask mask_eq_exp_minus_1)

lemma flag_bits: "f \<in> {0, 1, 2, 3 :: u16} \<Longrightarrow> bit f n \<Longrightarrow> n < 2"
  by (rule bit_imp_less [of f]) auto

lemma wf_item_flag: "wf_item it \<Longrightarrow> wi_flag it \<in> {0, 1, 2, 3}"
  by (auto simp: wf_item_def)

lemma head_parts:
  assumes "wf_item it"
  shows "drop_bit 2 (push_bit 2 (wi_type it) OR wi_flag it) = wi_type it"
    and "(push_bit 2 (wi_type it) OR wi_flag it) AND 0x3 = wi_flag it"
proof -
  note t = wf_item_type [OF assms] and f = flag_bits [OF wf_item_flag [OF assms]]
  show "drop_bit 2 (push_bit 2 (wi_type it) OR wi_flag it) = wi_type it"
    by (rule bit_word_eqI) (auto simp: bit_simps dest: t f)
  show "(push_bit 2 (wi_type it) OR wi_flag it) AND 0x3 = wi_flag it"
    unfolding u16_and_3 by (rule bit_word_eqI) (auto simp: bit_simps dest: t f)
qed

lemma three_byte_length:
  assumes "n < 2 ^ 24"
  shows "unat (push_bit 16 (ucast (of_nat (n div 65536) :: byte))
      OR push_bit 8 (ucast (of_nat (n div 256) :: byte)) OR ucast (of_nat n :: byte) :: u32) = n"
proof -
  have "(push_bit 16 (ucast (of_nat (n div 65536) :: byte))
      OR push_bit 8 (ucast (of_nat (n div 256) :: byte)) OR ucast (of_nat n :: byte) :: u32) = of_nat n"
    (is "?l = _")
  proof (rule bit_word_eqI)
    fix k assume k: "k < LENGTH(32)"
    have hi: "bit n k \<Longrightarrow> k < 24"
      using assms by (metis bit_take_bit_iff take_bit_nat_eq_self)
    have d: "n div 65536 = drop_bit 16 n" "n div 256 = drop_bit 8 n"
      by (simp_all add: drop_bit_eq_div)
    from k consider "k < 8" | "8 \<le> k" "k < 16" | "16 \<le> k" "k < 24" | "24 \<le> k" "k < 32"
      by fastforce
    then show "bit ?l k \<longleftrightarrow> bit (of_nat n :: u32) k"
      unfolding d using hi by cases (auto simp: bit_simps)
  qed
  then show ?thesis using assms by (simp add: unsigned_of_nat take_bit_nat_eq_self)
qed

text \<open>
  An item codec is a two-byte codec for the length field; with it the head reader inverts
  the encoder wherever the item stands.
\<close>

locale item_codec = fixed_codec put16 get16 2
  for put16 :: "u16 \<Rightarrow> bytes" and get16 :: "bytes \<Rightarrow> u16 outcome"
begin

lemma read_len_enc:
  assumes "wf_item it"
    and "vis s = pre @ len_field put16 (wi_flag it) (length (wi_data it)) @ post"
  shows "read_len get16 s (length pre) (wi_flag it) =
    Done (length (wi_data it), length pre + length (len_field put16 (wi_flag it) (length (wi_data it))))"
proof -
  consider "wi_flag it = 0" "length (wi_data it) = 4"
    | "wi_flag it = 1" "length (wi_data it) < 2 ^ 8"
    | "wi_flag it = 2" "length (wi_data it) < 2 ^ 16"
    | "wi_flag it = 3" "length (wi_data it) < 2 ^ 24"
    using assms(1) by (auto simp: wf_item_def)
  then show ?thesis
  proof cases
    case 1
    then show ?thesis by (simp add: read_len_def len_field_def)
  next
    case 2
    then show ?thesis using assms(2)
      by (simp add: read_len_def len_field_def sidx_def slen_def unsigned_of_nat take_bit_nat_eq_self)
  next
    case 3
    then have "ssub s (length pre) (length pre + 2) =
        Done \<lparr>vis = put16 (of_nat (length (wi_data it))), spare = drop (length pre + 2) (sbacking s)\<rparr>"
      using assms(2) put_width by (subst ssub_inside) (auto simp: slen_def len_field_def)
    then show ?thesis using 3 put_width get_put [of _ "[]"]
      by (simp add: read_len_def len_field_def unsigned_of_nat take_bit_nat_eq_self)
  next
    case 4
    then show ?thesis using assms(2) three_byte_length [OF 4(2)]
      by (simp add: read_len_def len_field_def sidx_def slen_def nth_append)
  qed
qed

lemma read_head_enc:
  assumes "wf_item it" and vis: "vis s = pre @ enc_head put16 it @ post"
  shows "read_head get16 s (length pre) =
    Done (wi_type it, length (wi_data it), length pre + length (enc_head put16 it))"
proof -
  let ?h = "push_bit 2 (wi_type it) OR wi_flag it"
  have sub: "ssub s (length pre) (length pre + 2) =
      Done \<lparr>vis = le16_put ?h, spare = drop (length pre + 2) (sbacking s)\<rparr>"
    using vis by (subst ssub_inside) (auto simp: slen_def enc_head_def)
  have "read_len get16 s (length (pre @ le16_put ?h)) (wi_flag it) = Done (length (wi_data it),
      length (pre @ le16_put ?h) + length (len_field put16 (wi_flag it) (length (wi_data it))))"
    using vis by (intro read_len_enc [OF assms(1)]) (simp add: enc_head_def)
  then show ?thesis
    using sub head_parts [OF assms(1)] by (simp add: read_head_def enc_head_def add.assoc)
qed

lemma enc_item_min: "wf_item it \<Longrightarrow> 3 \<le> length (enc_item put16 it)"
  using put_width by (auto simp: enc_item_def enc_head_def len_field_def wf_item_def)

lemma enc_head_min: "2 \<le> length (enc_head put16 it)"
  by (simp add: enc_head_def)

lemma enc_item_slice:
  assumes "vis s = pre @ enc_item put16 it @ post"
  shows "ssub s (length pre + length (enc_head put16 it))
      (length pre + length (enc_head put16 it) + length (wi_data it)) =
    Done \<lparr>vis = wi_data it, spare = drop (length pre + length (enc_item put16 it)) (sbacking s)\<rparr>"
  using assms by (subst ssub_inside) (auto simp: slen_def enc_item_def add.assoc)

text \<open>Reading the items of a sequence one after the other.\<close>

lemma item_at:
  assumes "list_all wf_item its" "vis s = pre @ enc_items put16 its @ post" "k < length its"
  obtains j sp where
    "read_head get16 s (length pre + length (concat (map (enc_item put16) (take k its)))) =
       Done (wi_type (its ! k), length (wi_data (its ! k)), j)"
    "ssub s j (j + length (wi_data (its ! k))) = Done \<lparr>vis = wi_data (its ! k), spare = sp\<rparr>"
    "j + length (wi_data (its ! k)) =
       length pre + length (concat (map (enc_item put16) (take (Suc k) its)))"
proof -
  let ?it = "its ! k" and ?p = "pre @ concat (map (enc_item put16) (take k its))"
  let ?q = "concat (map (enc_item put16) (drop (Suc k) its)) @ post"
  have wf: "wf_item ?it" using assms(1,3) by (simp add: list_all_length)
  have "its = take k its @ ?it # drop (Suc k) its" using assms(3) by (rule id_take_nth_drop)
  then have "enc_items put16 its = concat (map (enc_item put16) (take k its)) @ enc_item put16 ?it
      @ concat (map (enc_item put16) (drop (Suc k) its))"
    unfolding enc_items_def by (metis concat.simps(2) concat_append list.simps(9) map_append)
  then have v: "vis s = ?p @ enc_item put16 ?it @ ?q" using assms(2) by simp
  then have h: "vis s = ?p @ enc_head put16 ?it @ (wi_data ?it @ ?q)" by (simp add: enc_item_def)
  have t: "take (Suc k) its = take k its @ [?it]" using assms(3) by (rule take_Suc_conv_app_nth)
  show thesis
    using that [of "length ?p + length (enc_head put16 ?it)"] read_head_enc [OF wf h] enc_item_slice [OF v]
    by (simp add: t enc_item_def add.assoc)
qed

end

interpretation le_items: item_codec le16_put le16_get ..

interpretation be_items: item_codec be16_put be16_get ..

lemma EncodeParamEntry_enc_item:
  assumes "wf_item it"
  shows "EncodeParamEntry (wi_type it) (ucast (wi_flag it)) (wi_data it) = enc_item le16_put it"
proof -
  have t: "wi_type it AND 0x3FFF = wi_type it"
  proof -
    have "wi_type it AND 0x3FFF = take_bit 14 (wi_type it)"
      by (simp add: take_bit_eq_mask mask_eq_exp_minus_1)
    also have "\<dots> = wi_type it"
      by (rule bit_word_eqI) (auto simp: bit_take_bit_iff dest: wf_item_type [OF assms])
    finally show ?thesis .
  qed
  have m: "(w :: byte) AND 0xFF = w" for w
  proof -
    have "w AND 0xFF = take_bit 8 w" by (simp add: take_bit_eq_mask mask_eq_exp_minus_1)
    also have "\<dots> = w" by (rule bit_word_eqI) (simp add: bit_take_bit_iff)
    finally show ?thesis .
  qed
  consider "wi_flag it = 0" "length (wi_data it) = 4" | "wi_flag it = 1" | "wi_flag it = 2" | "wi_flag it = 3"
    using assms by (auto simp: wf_item_def)
  then show ?thesis
    by cases (simp_all add: EncodeParamEntry_def enc_item_def enc_head_def len_field_def t m Let_def)
qed

text \<open>C25: the item reader of the uplink parser inverts EncodeParamEntry: an item
  encoded with a 14-bit type, a length flag and data that fit the flag is read back, at any
  place in a frame, as its type, the length of its data and the position where the data
  starts, and the slice at that position holds exactly the data.\<close>

theorem EncodeParamEntry_roundtrip:
  assumes "wf_item it"
    and "vis s = pre @ EncodeParamEntry (wi_type it) (ucast (wi_flag it)) (wi_data it) @ post"
  shows "\<exists>j. read_head le16_get s (length pre) = Done (wi_type it, length (wi_data it), j) \<and>
    (\<exists>sp. ssub s j (j + length (wi_data it)) = Done \<lparr>vis = wi_data it, spare = sp\<rparr>)"
proof -
  have v: "vis s = pre @ enc_item le16_put it @ post"
    using assms by (simp add: EncodeParamEntry_enc_item)
  then have "vis s = pre @ enc_head le16_put it @ (wi_data it @ post)"
    by (simp add: enc_item_def)
  from le_items.read_head_enc [OF assms(1) this] le_items.enc_item_slice [OF v]
  show ?thesis by blast
qed

theorem EncodeParamEntry_roundtrip_witness:
  "\<exists>j. read_head le16_get (mk_slice (EncodeParamEntry 5 1 [7])) 0 = Done (5, 1, j) \<and>
    (\<exists>sp. ssub (mk_slice (EncodeParamEntry 5 1 [7])) j (j + 1) = Done \<lparr>vis = [7], spare = sp\<rparr>)"
  using EncodeParamEntry_roundtrip
    [of "\<lparr>wi_type = 5, wi_flag = 1, wi_data = [7]\<rparr>" "mk_slice (EncodeParamEntry 5 1 [7])" "[]" "[]"]
  by (simp add: wf_item_def)

section \<open>Decoding one item\<close>

text \<open>
  What all three loops do with the bytes of an item: look up its type and call the parser of
  the entry. A successful result, with the name of the entry, is stored by each loop in its
  own way.
\<close>

definition parse_value :: "u16 \<Rightarrow> bytes \<Rightarrow> 'a config_state_scheme \<Rightarrow>
    ((string \<times> gvalue) option \<times> 'a config_state_scheme) outcome" where
  "parse_value paramType valBytes st =
     (case LookupParamInfo paramType of
        None \<Rightarrow> Done (None, st)
      | Some info \<Rightarrow>
          obind (call_parser (pi_Parse info) valBytes st) (\<lambda>(r, st').
            Done (case r of Inl err \<Rightarrow> None | Inr val \<Rightarrow> Some (pi_Name info, val), st')))"

definition decode :: "u16 \<Rightarrow> bytes \<Rightarrow> (string \<times> gvalue) option" where
  "decode paramType valBytes =
     (case LookupParamInfo paramType of
        None \<Rightarrow> None
      | Some info \<Rightarrow>
          (case run_parser (pi_Parse info) valBytes of
             Done (Inr val) \<Rightarrow> Some (pi_Name info, val)
           | _ \<Rightarrow> None))"

definition decoded :: "wire_item list \<Rightarrow> (string \<times> gvalue) list" where
  "decoded its = List.map_filter (\<lambda>it. decode (wi_type it) (wi_data it)) its"

definition note_topo :: "gvalue \<Rightarrow> 'a config_state_scheme \<Rightarrow> 'a config_state_scheme" where
  "note_topo v st = (case v of VTopo ns \<Rightarrow> st\<lparr>TopoList := ns\<rparr> | _ \<Rightarrow> st)"

lemma parse_value_total:
  "parse_value t bs st =
     Done (decode t bs, case decode t bs of None \<Rightarrow> st | Some (n, v) \<Rightarrow> note_topo v st)"
proof (cases "LookupParamInfo t")
  case (Some info)
  obtain r where "run_parser (pi_Parse info) bs = Done r"
    using run_parser_returns [of "pi_Parse info" bs] by (auto simp: returns_iff)
  then show ?thesis using Some
    by (auto simp: parse_value_def decode_def call_parser_def note_topo_def split: sum.splits gvalue.splits)
qed (simp add: parse_value_def decode_def)

lemma decoded_simps [simp]:
  "decoded [] = []"
  "decoded (it # its) =
     (case decode (wi_type it) (wi_data it) of None \<Rightarrow> decoded its | Some nv \<Rightarrow> nv # decoded its)"
  by (simp_all add: decoded_def map_filter_simps split: option.splits)

lemma decode_not_nil: "decode t bs = Some (n, v) \<Longrightarrow> v \<noteq> VNil"
  by (cases "pi_Parse (the (LookupParamInfo t))")
    (auto simp: decode_def parseFloat32_def parseUint8_def parseUint16_def parseUint32_def
      parsefloat32Array_def parseUint16Array_def parseInt16_def outcome_simps Let_def
      split: option.splits outcome.splits sum.splits if_splits)

lemma note_topo_frame [simp]:
  "ValuesMap (note_topo v st) = ValuesMap st"
  "SensorIDToDeviceName (note_topo v st) = SensorIDToDeviceName st"
  "Resources1 (note_topo v st) = Resources1 st"
  "ResourcesFlag (note_topo v st) = ResourcesFlag st"
  "WriteChan (note_topo v st) = WriteChan st"
  "WriteChan_closed (note_topo v st) = WriteChan_closed st"
  "resourcesMap (note_topo v st) = resourcesMap st"
  "config_state.more (note_topo v st) = config_state.more st"
  "LookupDeviceName e (note_topo v st) = LookupDeviceName e st"
  "GetDeviceValue d r (note_topo v st) = GetDeviceValue d r st"
  by (simp_all add: note_topo_def LookupDeviceName_def GetDeviceValue_def split: gvalue.splits)

text \<open>The writes an item causes, and what a sequence of items leaves in the values.\<close>

definition write_item :: "string \<Rightarrow> wire_item \<Rightarrow> 'a config_state_scheme \<Rightarrow> 'a config_state_scheme" where
  "write_item d it st =
     (case decode (wi_type it) (wi_data it) of
        None \<Rightarrow> st
      | Some (n, v) \<Rightarrow> SetDeviceValue d n v (note_topo v st))"

abbreviation write_items :: "string \<Rightarrow> wire_item list \<Rightarrow> 'a config_state_scheme \<Rightarrow> 'a config_state_scheme" where
  "write_items d its \<equiv> fold (write_item d) its"

definition last_value :: "(string \<times> gvalue) list \<Rightarrow> string \<Rightarrow> gvalue option" where
  "last_value nvs r = map_of (rev nvs) r"

lemma last_value_Nil [simp]: "last_value [] r = None"
  by (simp add: last_value_def)

lemma last_value_Cons [simp]:
  "last_value ((n, v) # nvs) r =
     (case last_value nvs r of Some u \<Rightarrow> Some u | None \<Rightarrow> if r = n then Some v else None)"
  by (auto simp: last_value_def map_add_def split: option.splits)

lemma write_item_frame [simp]:
  "SensorIDToDeviceName (write_item d it st) = SensorIDToDeviceName st"
  "Resources1 (write_item d it st) = Resources1 st"
  "ResourcesFlag (write_item d it st) = ResourcesFlag st"
  "WriteChan (write_item d it st) = WriteChan st"
  "WriteChan_closed (write_item d it st) = WriteChan_closed st"
  "resourcesMap (write_item d it st) = resourcesMap st"
  "config_state.more (write_item d it st) = config_state.more st"
  "LookupDeviceName e (write_item d it st) = LookupDeviceName e st"
  by (simp_all add: write_item_def split: option.splits)

lemma write_items_frame [simp]:
  "SensorIDToDeviceName (write_items d its st) = SensorIDToDeviceName st"
  "Resources1 (write_items d its st) = Resources1 st"
  "ResourcesFlag (write_items d its st) = ResourcesFlag st"
  "WriteChan (write_items d its st) = WriteChan st"
  "WriteChan_closed (write_items d its st) = WriteChan_closed st"
  "resourcesMap (write_items d its st) = resourcesMap st"
  "config_state.more (write_items d its st) = config_state.more st"
  "LookupDeviceName e (write_items d its st) = LookupDeviceName e st"
  by (induction its arbitrary: st) simp_all

lemma write_items_get:
  "GetDeviceValue d' r (write_items d its st) =
     (case last_value (decoded its) r of
        Some v \<Rightarrow> if d' = d then Some v else GetDeviceValue d' r st
      | None \<Rightarrow> GetDeviceValue d' r st)"
  by (induction its arbitrary: st)
    (auto simp: write_item_def SetDeviceValue_get split: option.splits)

lemma write_items_Resources1:
  "write_items d its (st\<lparr>Resources1 := m\<rparr>) = (write_items d its st)\<lparr>Resources1 := m\<rparr>"
proof (induction its arbitrary: st)
  case (Cons it its)
  have "write_item d it (st\<lparr>Resources1 := m\<rparr>) = (write_item d it st)\<lparr>Resources1 := m\<rparr>"
    by (simp add: write_item_def SetDeviceValue_def note_topo_def Let_def split: option.splits gvalue.splits)
  then show ?case by (simp add: Cons)
qed simp

lemma fold_put_decoded:
  "mget (fold (\<lambda>(n, v). mput n v) (decoded its) m) r =
     (case last_value (decoded its) r of Some v \<Rightarrow> Some v | None \<Rightarrow> mget m r)"
  using gomap.get_puts [where k = r and kvs = "decoded its" and s = m]
  by (simp add: last_value_def split: option.splits)

section \<open>The shape of the item loops\<close>

text \<open>
  One round of an item loop breaks, or goes on with a new count of parsed items and a new
  position. The contract of a loop over a body: the loop follows its rounds until the count
  is reached, and a round moves the position forward, never past the limit.
\<close>

datatype 's round = Break 's | Next nat nat 's

locale item_loop =
  fixes body :: "nat \<Rightarrow> nat \<Rightarrow> 's \<Rightarrow> 's round outcome"
    and loop :: "nat \<Rightarrow> nat \<Rightarrow> 's \<Rightarrow> 's outcome"
    and count :: nat
  assumes loop_unfold: "loop parsed idx st =
      (if parsed < count
       then obind (body parsed idx st) (\<lambda>r. case r of Break st' \<Rightarrow> Done st' | Next p i st' \<Rightarrow> loop p i st')
       else Done st)"
begin

lemma loop_done: "count \<le> parsed \<Longrightarrow> loop parsed idx st = Done st"
  by (simp add: loop_unfold [of parsed])

lemma loop_break: "parsed < count \<Longrightarrow> body parsed idx st = Done (Break st') \<Longrightarrow> loop parsed idx st = Done st'"
  by (simp add: loop_unfold [of parsed])

lemma loop_next:
  "parsed < count \<Longrightarrow> body parsed idx st = Done (Next p i st') \<Longrightarrow> loop parsed idx st = loop p i st'"
  by (simp add: loop_unfold [of parsed])

lemma loop_panic: "parsed < count \<Longrightarrow> body parsed idx st = Panic \<Longrightarrow> loop parsed idx st = Panic"
  by (simp add: loop_unfold [of parsed])

text \<open>Items that the body consumes one per round are processed from left to right.\<close>

lemma loop_items:
  assumes "\<And>k st. k < length its \<Longrightarrow>
      body (parsed + k) (idx + length (concat (map enc (take k its)))) st =
      Done (Next (parsed + k + 1) (idx + length (concat (map enc (take (Suc k) its)))) (act (its ! k) st))"
    and "parsed + length its \<le> count"
  shows "loop parsed idx st = loop (parsed + length its) (idx + length (concat (map enc its))) (fold act its st)"
  using assms
proof (induction its arbitrary: parsed idx st)
  case (Cons it its)
  have "body parsed idx st = Done (Next (parsed + 1) (idx + length (enc it)) (act it st))"
    using Cons.prems(1) [of 0] by simp
  then have "loop parsed idx st = loop (parsed + 1) (idx + length (enc it)) (act it st)"
    using Cons.prems(2) by (intro loop_next) simp_all
  also have "\<dots> = loop (parsed + 1 + length its) (idx + length (enc it) + length (concat (map enc its)))
      (fold act its (act it st))"
  proof (rule Cons.IH)
    fix k st' assume "k < length its"
    then show "body (parsed + 1 + k) (idx + length (enc it) + length (concat (map enc (take k its)))) st' =
      Done (Next (parsed + 1 + k + 1) (idx + length (enc it) + length (concat (map enc (take (Suc k) its))))
        (act (its ! k) st'))"
      using Cons.prems(1) [of "Suc k" st'] by (simp add: add.assoc)
  qed (use Cons.prems(2) in simp)
  finally show ?case by (simp add: add.assoc)
qed simp

end

section \<open>Where an item ends\<close>

lemma low_flag: "(ucast a OR push_bit 8 (ucast (b :: byte)) :: u16) AND 3 = ucast ((a :: byte) AND 3)"
proof -
  have m: "(3 :: 'a::len word) = mask 2" by (simp add: mask_eq_exp_minus_1)
  show ?thesis unfolding m by (rule bit_word_eqI) (auto simp: bit_simps)
qed

lemma unat_le16: "unat (ucast a OR push_bit 8 (ucast (b :: byte)) :: u16) = unat (a :: byte) + 256 * unat b"
proof -
  have "(ucast a OR push_bit 8 (ucast b) :: u16) = ucast a + push_bit 8 (ucast b)"
    by (rule disjunctive_add_eq_or [symmetric], rule bit_word_eqI) (auto simp: bit_simps dest: bit_imp_le_length)
  moreover have "unat (push_bit 8 (ucast b) :: u16) = 256 * unat b"
  proof -
    have "unat b * 256 < 65536" "unat b < 65536" using unat_byte_less [of b] by linarith+
    then show ?thesis by (simp add: unsigned_push_bit_eq unsigned_ucast_eq push_bit_nat_def take_bit_eq_mod mult.commute del: push_bit_numeral_minus_1)
  qed
  moreover have "unat (ucast a :: u16) = unat a"
    using unat_byte_less [of a] by (simp add: unsigned_ucast_eq take_bit_eq_mod del: unat_byte_less)
  moreover have "unat a + 256 * unat b < 2 ^ LENGTH(16)"
    using unat_byte_less [of a] unat_byte_less [of b] by (simp, linarith)
  ultimately show ?thesis by (simp add: unat_plus_if')
qed

lemma unat_be24: "unat (push_bit 16 (ucast (a :: byte)) OR push_bit 8 (ucast (b :: byte)) OR ucast (c :: byte) :: u32) =
  65536 * unat a + 256 * unat b + unat c"
proof -
  let ?n = "65536 * unat a + 256 * unat b + unat c"
  have lt: "unat a < 256" "unat b < 256" "unat c < 256" by simp_all
  then have n: "?n < 2 ^ 24" by (simp, linarith)
  have d: "?n div 65536 = unat a" "?n div 256 = 256 * unat a + unat b" using lt by linarith+
  have "?n mod 256 = (256 * (256 * unat a + unat b) + unat c) mod 256" by (rule arg_cong [of _ _ "\<lambda>x. x mod 256"]) simp
  also have "\<dots> = unat c" using lt(3) by (simp only: mod_mult_self4 mod_less)
  finally have e: "?n mod 256 = unat c" .
  have p: "2 ^ LENGTH(8) = (256 :: nat)" by simp
  have "(of_nat (?n div 65536) :: byte) = a" unfolding d by simp
  moreover have "(of_nat (?n div 256) :: byte) = b"
    unfolding d word_unat_eq_iff unat_of_nat using lt(2) by simp
  moreover have "(of_nat ?n :: byte) = c"
    unfolding word_unat_eq_iff unat_of_nat p by (rule e)
  ultimately show ?thesis using three_byte_length [OF n] by (simp only:)
qed

lemma flag_mod_4:
  "(ucast a OR push_bit 8 (ucast (b :: byte)) :: u16) AND 3 = of_nat (unat (a :: byte) mod 4)"
proof -
  have "a AND 3 = take_bit 2 a" by (simp add: take_bit_eq_mask mask_eq_exp_minus_1)
  then have "unat (a AND 3) = unat a mod 4" by (simp add: unsigned_take_bit_eq take_bit_eq_mod unat_mod)
  moreover have "unat a mod 4 < 65536" by (rule less_trans [of _ 4]) simp_all
  ultimately show ?thesis
    unfolding low_flag word_unat_eq_iff unat_of_nat by (simp add: unsigned_ucast_eq take_bit_eq_mod)
qed

text \<open>Where the item at \<open>i\<close> ends, by its length field; a three-byte length may be cut off.\<close>

definition item_end :: "slice \<Rightarrow> nat \<Rightarrow> nat option" where
  "item_end frame i =
     (let b = (\<lambda>k. unat (vis frame ! (i + k))) in
      if b 0 mod 4 = 0 then Some (i + 2 + 4)
      else if b 0 mod 4 = 1 then Some (i + 3 + b 2)
      else if b 0 mod 4 = 2 then Some (i + 4 + (b 2 + 256 * b 3))
      else if i + 4 < slen frame then Some (i + 5 + (65536 * b 2 + 256 * b 3 + b 4))
      else None)"

fun items_fit :: "slice \<Rightarrow> nat \<Rightarrow> nat \<Rightarrow> bool" where
  "items_fit frame 0 i \<longleftrightarrow> True"
| "items_fit frame (Suc n) i \<longleftrightarrow> slen frame < i + 4 \<or>
     (case item_end frame i of None \<Rightarrow> False | Some e \<Rightarrow> e \<le> scap frame \<and> items_fit frame n e)"

lemma read_head_item_end:
  assumes "i + 4 \<le> slen frame"
  shows "item_end frame i = (case read_head le16_get frame i of Done (t, n, j) \<Rightarrow> Some (j + n) | _ \<Rightarrow> None)"
proof -
  let ?a = "vis frame ! i" and ?b = "vis frame ! (i + 1)"
  have two: "take 2 (drop i (vis frame)) = [?a, ?b]" "take 2 (drop (i + 2) (vis frame)) = [vis frame ! (i + 2), vis frame ! (i + 3)]"
    using assms two_at [of i "vis frame"] two_at [of "i + 2" "vis frame"] by (simp_all add: slen_def add.commute [of _ i] del: add_2_eq_Suc add_2_eq_Suc' One_nat_def)
  have rh: "read_head le16_get frame i = obind (read_len le16_get frame (i + 2) (of_nat (unat ?a mod 4)))
      (\<lambda>(n, j). Done (drop_bit 2 (ucast ?a OR push_bit 8 (ucast ?b)), n, j))"
    using assms by (simp add: read_head_def ssub_inside two flag_mod_4 del: add_2_eq_Suc add_2_eq_Suc' One_nat_def)
  have "unat ?a mod 4 = 0 \<or> unat ?a mod 4 = 1 \<or> unat ?a mod 4 = 2 \<or> unat ?a mod 4 = 3" by linarith
  then show ?thesis
    using assms by (elim disjE)
      (simp_all add: rh read_len_def item_end_def ssub_inside two unat_le16 unat_be24 sidx_def add.commute [of _ i]
        del: add_2_eq_Suc add_2_eq_Suc' One_nat_def)
qed

end
