(* ===== verification/Relay.thy ===== *)
theory Relay
  imports ConfigState
begin

text \<open>
  The MQTT side of the service (\<open>mqttclient/mqttclient.go\<close>, \<open>relay/egress.go\<close>):
  the cleaning and decoding of hexadecimal text, the downlink publication, and the uplink
  handler that feeds the raw-frame channel. The broker client and the JSON decoder are
  parameters; \<open>clock\<close> is what \<open>time.Now()\<close> reads, in nanoseconds.
\<close>

section \<open>Messages and state\<close>

record SinkPayload =
  sp_Type :: string
  sp_Eid :: string
  sp_Timestamp :: u64
  sp_Datalen :: int
  sp_Data :: string

record 'p EdgexMessage =
  em_ApiVersion :: string
  em_ReceivedTopic :: string
  em_CorrelationID :: string
  em_RequestID :: string
  em_ErrorCode :: int
  em_Payload :: 'p
  em_ContentType :: string

type_synonym sink_message = "SinkPayload EdgexMessage"

record gateway_state = config_state +
  clock :: int
  token_error :: "string \<Rightarrow> sink_message \<Rightarrow> string option"
  published :: "(string \<times> sink_message) list"
  SinkRawDataCh :: "slice list"

section \<open>Hexadecimal text\<close>

datatype hex_problem = EmptyHex | OddHexLength nat | BadHex hex_error

definition decodeHexFlexible :: "string \<Rightarrow> hex_problem + bytes" where
  "decodeHexFlexible s =
     (let s = strip_separators (TrimSpace s) in
      if length s mod 2 \<noteq> 0 then Inl (OddHexLength (length s))
      else case hex_DecodeString s of Inl e \<Rightarrow> Inl (BadHex e) | Inr b \<Rightarrow> Inr b)"

definition normalizeHex :: "string \<Rightarrow> hex_problem + (string \<times> bytes)" where
  "normalizeHex s =
     (let s = strip_separators (TrimSpace s) in
      if length s = 0 then Inl EmptyHex
      else if length s mod 2 \<noteq> 0 then Inl (OddHexLength (length s))
      else case hex_DecodeString s of Inl e \<Rightarrow> Inl (BadHex e) | Inr b \<Rightarrow> Inr (s, b))"

section \<open>Downlink\<close>

datatype publish_error = InvalidHex hex_problem | TokenError string

definition PublishSinkCommand :: "string \<Rightarrow> string \<Rightarrow> string \<Rightarrow>
    'a gateway_state_scheme \<Rightarrow> publish_error option \<times> 'a gateway_state_scheme" where
  "PublishSinkCommand topic eid data st =
     (case normalizeHex data of
        Inl e \<Rightarrow> (Some (InvalidHex e), st)
      | Inr (normHex, raw) \<Rightarrow>
          (let sp = \<lparr>sp_Type = ''sink'', sp_Eid = eid,
                 sp_Timestamp = of_int (clock st div 1000000000),
                 sp_Datalen = int (length raw), sp_Data = ToUpper normHex\<rparr>;
               env = \<lparr>em_ApiVersion = ''v3'', em_ReceivedTopic = [],
                 em_CorrelationID = ''sink-'' @ Itoa (clock st),
                 em_RequestID = ''req-'' @ Itoa (clock st),
                 em_ErrorCode = 0, em_Payload = sp, em_ContentType = ''application/json''\<rparr>
           in (map_option TokenError (token_error st topic env),
               st\<lparr>published := published st @ [(topic, env)]\<rparr>)))"

text \<open>\<open>relay.SendFrame\<close>; the result of the publication is not looked at.\<close>

definition SendFrame :: "string \<Rightarrow> bytes \<Rightarrow> 'a gateway_state_scheme \<Rightarrow> 'a gateway_state_scheme" where
  "SendFrame dstAddr payload st =
     (let eidStr = ''238A0841D828'';
          hexStr1 = ToUpper (hex_EncodeToString payload)
      in snd (PublishSinkCommand ''edgex/server/response/device_wiresink/down'' eidStr hexStr1 st))"

section \<open>Uplink\<close>

text \<open>The dynamic types \<open>payloadBytes\<close> distinguishes; the rest is marshalled.\<close>

datatype 'j payload = PNil | PRaw bytes | PString string | PBytes bytes | PMap 'j | POther 'j

record 'j jsonlib =
  jl_envelope :: "bytes \<Rightarrow> ('j payload) EdgexMessage option"
  jl_marshal :: "'j \<Rightarrow> bytes option"
  jl_sink :: "bytes \<Rightarrow> SinkPayload option"

definition payloadBytes :: "'j jsonlib \<Rightarrow> 'j payload \<Rightarrow> bytes option" where
  "payloadBytes jl p =
     (case p of
        PNil \<Rightarrow> None
      | PRaw v \<Rightarrow> Some v
      | PString v \<Rightarrow> Some (bytes_of_string v)
      | PBytes v \<Rightarrow> Some v
      | PMap v \<Rightarrow> jl_marshal jl v
      | POther v \<Rightarrow> jl_marshal jl v)"

definition raw_capacity :: nat where
  "raw_capacity = 128"

text \<open>
  The subscription callback. \<open>hex_spare\<close> is what the backing array of the decoded slice
  holds behind its end.
\<close>

definition sinkMsgHandler :: "'j jsonlib \<Rightarrow> (string \<Rightarrow> bytes) \<Rightarrow> bytes \<Rightarrow>
    'a gateway_state_scheme \<Rightarrow> 'a gateway_state_scheme" where
  "sinkMsgHandler jl hex_spare msg st =
     (case jl_envelope jl msg of
        None \<Rightarrow> st
      | Some env \<Rightarrow>
          (case payloadBytes jl (em_Payload env) of
             None \<Rightarrow> st
           | Some pb \<Rightarrow>
               if length pb = 0 then st
               else (case jl_sink jl pb of
                   None \<Rightarrow> st
                 | Some sp \<Rightarrow>
                     if sp_Data sp = [] then st
                     else (case decodeHexFlexible (sp_Data sp) of
                         Inl e \<Rightarrow> st
                       | Inr raw \<Rightarrow>
                           if length (SinkRawDataCh st) < raw_capacity
                           then st\<lparr>SinkRawDataCh := SinkRawDataCh st @
                             [\<lparr>vis = raw, spare = hex_spare (sp_Data sp)\<rparr>]\<rparr>
                           else st))))"

section \<open>Lemmas\<close>

lemma normalizeHex_upper: "bs \<noteq> [] \<Longrightarrow> normalizeHex (hex_upper bs) = Inr (hex_upper bs, bs)"
  by (simp add: normalizeHex_def Let_def)

lemma decodeHexFlexible_upper: "decodeHexFlexible (hex_upper bs) = Inr bs"
  by (simp add: decodeHexFlexible_def Let_def)

lemma ToUpper_hex_upper [simp]: "ToUpper (hex_upper bs) = hex_upper bs"
proof -
  have "upper_char (hex_upper_digits ! n) = hex_upper_digits ! n" if "n < 16" for n
    using that by (rule nibble_cases) (simp_all add: upper_char_def hex_upper_digits_def)
  then show ?thesis by (induction bs) (simp_all add: ToUpper_def hex_upper_Cons)
qed

definition downlink :: "bytes \<Rightarrow> int \<Rightarrow> string \<times> sink_message" where
  "downlink payload now =
     (''edgex/server/response/device_wiresink/down'',
      \<lparr>em_ApiVersion = ''v3'', em_ReceivedTopic = [],
       em_CorrelationID = ''sink-'' @ Itoa now, em_RequestID = ''req-'' @ Itoa now, em_ErrorCode = 0,
       em_Payload = \<lparr>sp_Type = ''sink'', sp_Eid = ''238A0841D828'',
         sp_Timestamp = of_int (now div 1000000000), sp_Datalen = int (length payload),
         sp_Data = hex_upper payload\<rparr>,
       em_ContentType = ''application/json''\<rparr>)"

lemma SendFrame_publishes:
  "payload \<noteq> [] \<Longrightarrow>
   SendFrame dst payload st = st\<lparr>published := published st @ [downlink payload (clock st)]\<rparr>"
  by (simp add: SendFrame_def PublishSinkCommand_def normalizeHex_upper downlink_def Let_def)

lemma SendFrame_empty: "SendFrame dst [] st = st"
  by (simp add: SendFrame_def PublishSinkCommand_def normalizeHex_def hex_EncodeToString_def
      ToUpper_def TrimSpace_id no_space_ends_def)

lemma SendFrame_frame [simp]:
  "ValuesMap (SendFrame d p st) = ValuesMap st"
  "SensorIDToDeviceName (SendFrame d p st) = SensorIDToDeviceName st"
  "TopoList (SendFrame d p st) = TopoList st"
  "Resources1 (SendFrame d p st) = Resources1 st"
  "ResourcesFlag (SendFrame d p st) = ResourcesFlag st"
  "WriteChan (SendFrame d p st) = WriteChan st"
  "WriteChan_closed (SendFrame d p st) = WriteChan_closed st"
  "clock (SendFrame d p st) = clock st"
  "SinkRawDataCh (SendFrame d p st) = SinkRawDataCh st"
  "gateway_state.more (SendFrame d p st) = gateway_state.more st"
  by (cases "p = []"; simp add: SendFrame_empty SendFrame_publishes)+

section \<open>Properties\<close>

text \<open>Sending a non-empty frame publishes exactly one message, whose data is the
  upper-case hexadecimal of the frame and whose length field is its byte count; the
  destination argument has no influence, every message carries the same module EID. An
  empty frame is not published.\<close>

theorem SendFrame_one_fixed_destination:
  "SendFrame dst payload st = SendFrame dst' payload st \<and>
   published (SendFrame dst payload st) =
     published st @ (if payload = [] then [] else [downlink payload (clock st)]) \<and>
   hex_DecodeString (sp_Data (em_Payload (snd (downlink payload now)))) = Inr payload"
  by (cases "payload = []") (simp_all add: SendFrame_publishes SendFrame_empty downlink_def)

text \<open>
  A published downlink, delivered to a subscriber that runs the uplink handler, yields the
  bytes that were sent.
\<close>

definition queue_ok :: "'a gateway_state_scheme \<Rightarrow> bool" where
  "queue_ok st \<longleftrightarrow> length (SinkRawDataCh st) \<le> raw_capacity"

text \<open>The uplink handler appends at most one frame to the raw-frame channel, keeps
  the frames already queued in order and never exceeds the capacity; a message whose data
  is the hexadecimal text of a frame is queued as that frame whenever there is room, even
  if its type is not sink or its length field is wrong, and is dropped when there is none.\<close>

theorem sinkMsgHandler_correct:
  assumes "queue_ok st"
  shows "queue_ok (sinkMsgHandler jl sp msg st) \<and>
    (\<exists>q. length q \<le> 1 \<and> SinkRawDataCh (sinkMsgHandler jl sp msg st) = SinkRawDataCh st @ q) \<and>
    (jl_envelope jl msg = Some env \<and> payloadBytes jl (em_Payload env) = Some pb \<and> pb \<noteq> [] \<and> jl_sink jl pb = Some m \<and> sp_Data m = hex_upper fr \<and> fr \<noteq> [] \<longrightarrow>
      SinkRawDataCh (sinkMsgHandler jl sp msg st) =
        (if length (SinkRawDataCh st) < raw_capacity
         then SinkRawDataCh st @ [\<lparr>vis = fr, spare = sp (hex_upper fr)\<rparr>] else SinkRawDataCh st))"
proof (intro conjI impI)
  show "queue_ok (sinkMsgHandler jl sp msg st)"
    using assms by (auto simp: sinkMsgHandler_def queue_ok_def split: option.splits sum.splits)
  show "\<exists>q. length q \<le> 1 \<and> SinkRawDataCh (sinkMsgHandler jl sp msg st) = SinkRawDataCh st @ q"
    by (auto simp: sinkMsgHandler_def split: option.splits sum.splits)
  show "SinkRawDataCh (sinkMsgHandler jl sp msg st) =
        (if length (SinkRawDataCh st) < raw_capacity
         then SinkRawDataCh st @ [\<lparr>vis = fr, spare = sp (hex_upper fr)\<rparr>] else SinkRawDataCh st)"
    if "jl_envelope jl msg = Some env \<and> payloadBytes jl (em_Payload env) = Some pb \<and> pb \<noteq> [] \<and>
      jl_sink jl pb = Some m \<and> sp_Data m = hex_upper fr \<and> fr \<noteq> []"
    using that by (simp add: sinkMsgHandler_def decodeHexFlexible_upper)
qed

definition demo_gateway :: gateway_state where
  "demo_gateway = config_state.extend initial_config
     \<lparr>clock = 0, token_error = (\<lambda>_ _. None), published = [], SinkRawDataCh = []\<rparr>"

definition demo_json :: "unit jsonlib" where
  "demo_json =
     \<lparr>jl_envelope = (\<lambda>m. Some \<lparr>em_ApiVersion = ''v3'', em_ReceivedTopic = [], em_CorrelationID = [],
        em_RequestID = [], em_ErrorCode = 0, em_Payload = PRaw m, em_ContentType = []\<rparr>),
      jl_marshal = (\<lambda>_. None),
      jl_sink = (\<lambda>pb. Some \<lparr>sp_Type = ''other'', sp_Eid = [], sp_Timestamp = 0, sp_Datalen = 99,
        sp_Data = hex_upper [1, 2, 3]\<rparr>)\<rparr>"

theorem sinkMsgHandler_correct_witness:
  "SinkRawDataCh (sinkMsgHandler demo_json (\<lambda>_. []) [0x7B] demo_gateway) = [mk_slice [1, 2, 3]]"
proof -
  have q: "queue_ok demo_gateway"
    by (simp add: queue_ok_def demo_gateway_def config_state.defs gateway_state.defs)
  have e: "SinkRawDataCh demo_gateway = []" by (simp add: demo_gateway_def config_state.defs)
  show ?thesis
    using sinkMsgHandler_correct [OF q, where jl = demo_json and sp = "\<lambda>_. []" and msg = "[0x7B]" and
        env = "the (jl_envelope demo_json [0x7B])" and pb = "[0x7B]" and
        m = "the (jl_sink demo_json [0x7B])" and fr = "[1, 2, 3]"]
    by (simp add: demo_json_def payloadBytes_def e raw_capacity_def mk_slice_def)
qed

end
