(* ===== verification/CtlResponse.thy ===== *)
theory CtlResponse
  imports ParamStream Relay
begin

text \<open>
  The responses to control frames: \<open>handleFrameCtl\<close> (\<open>frameparser/parser_response.go\<close>),
  the table of response parsers and the parsers themselves
  (\<open>config/param_table_parser_response.go\<close>), and the AT command they may send
  (\<open>config/tool.go\<close>).
\<close>

section \<open>Frames\<close>

record Frame =
  SensorID :: string
  DataLen :: byte
  FragInd :: byte
  PacketType :: byte
  Payload :: slice
  Check :: u16

definition Frame_Bytes :: "Frame \<Rightarrow> bytes" where
  "Frame_Bytes f =
     bytes_of_string (SensorID f) @ [DataLen f] @
     [push_bit 4 (DataLen f) OR push_bit 3 (FragInd f) OR PacketType f] @
     vis (Payload f) @ [ucast (Check f), ucast (drop_bit 8 (Check f))]"

section \<open>The AT command channel (tool.go)\<close>

definition write_capacity :: nat where
  "write_capacity = 100"

text \<open>
  A send on the closed channel panics; on the full channel it waits for a reader, and
  nothing in the service reads this channel.
\<close>

definition send_WriteChan :: "string \<Rightarrow> 'a config_state_scheme \<Rightarrow> 'a config_state_scheme outcome" where
  "send_WriteChan cmd st =
     (if WriteChan_closed st then Panic
      else if length (WriteChan st) < write_capacity
      then Done (st\<lparr>WriteChan := WriteChan st @ [cmd]\<rparr>)
      else Blocked)"

definition config_SendFrame :: "string \<Rightarrow> bytes \<Rightarrow>
    'a config_state_scheme \<Rightarrow> 'a config_state_scheme outcome" where
  "config_SendFrame dstAddr payload st =
     (let hexStr = hex_upper payload;
          cmd = [CHR 0x0D] @ ''AT+DTX='' @ dstAddr @ '','' @ hexStr @ [CHR 0x0D, CHR 0x0A]
      in send_WriteChan cmd st)"

definition config_RestCommandBuildFrame :: "string \<Rightarrow> bytes \<Rightarrow> byte \<Rightarrow> u32 \<Rightarrow>
    'a config_state_scheme \<Rightarrow> (build_error option \<times> 'a config_state_scheme) outcome" where
  "config_RestCommandBuildFrame eidStr sensorID requestSetFlag timestamp st =
     (if requestSetFlag \<noteq> 0 \<and> requestSetFlag \<noteq> 1 then Done (Some (InvalidFlag requestSetFlag), st)
      else let buf = sensorID @ [push_bit 4 0 OR push_bit 3 0 OR (0x04 AND 0x07)] @
                 [push_bit 1 (0x04 AND 0x7F) OR (requestSetFlag AND 0x01)] @ le32_put timestamp;
               crc = config_CRC16 buf
           in obind (config_SendFrame eidStr (buf @ be16_put crc) st) (\<lambda>st'. Done (None, st')))"

section \<open>The response parsers\<close>

datatype response_error =
    NoEID string
  | EIDType string gvalue
  | EIDHex hex_error
  | EIDLength nat

text \<open>The name that a failed lookup leaves behind is the empty string.\<close>

definition name_or_empty :: "string option \<Rightarrow> string" where
  "name_or_empty d = (case d of None \<Rightarrow> [] | Some n \<Rightarrow> n)"

definition common_body :: "slice \<Rightarrow> Frame \<Rightarrow> nat \<Rightarrow> nat \<Rightarrow> 'a config_state_scheme \<Rightarrow>
    'a config_state_scheme round outcome" where
  "common_body data frameCtl parsed idx st =
     (if int idx + 2 > int (slen data) - 2 then Done (Break st)
      else obind (read_head be16_get data idx) (\<lambda>(paramType, dataLen, j).
        if int j + int dataLen > int (slen data) - 2 then Done (Break st)
        else obind (ssub data j (j + dataLen)) (\<lambda>valBytes.
          case LookupDeviceName (SensorID frameCtl) st of
            None \<Rightarrow> Done (Next parsed (j + dataLen) st)
          | Some deviceName \<Rightarrow>
              obind (parse_value paramType (vis valBytes) st) (\<lambda>(r, st').
                Done (Next (parsed + 1) (j + dataLen)
                  (case r of
                     None \<Rightarrow> st'
                   | Some (name, val) \<Rightarrow>
                       (let st'' = SetDeviceValue deviceName name val st'
                        in st''\<lparr>Resources1 := mput name val (Resources1 st'')\<rparr>)))))))"

lemma common_body_advances:
  "common_body data fr parsed idx st = Done (Next p i st') \<Longrightarrow> idx < i \<and> i < slen data \<and> parsed \<le> p"
  by (auto simp: common_body_def outcome_simps dest!: read_head_advances split: if_splits option.splits)

function common_loop :: "slice \<Rightarrow> Frame \<Rightarrow> nat \<Rightarrow> nat \<Rightarrow> 'a config_state_scheme \<Rightarrow>
    'a config_state_scheme outcome" where
  "common_loop data frameCtl parsed idx st =
     (if parsed < unat (DataLen frameCtl)
      then obind (common_body data frameCtl parsed idx st) (\<lambda>r.
        case r of Break st' \<Rightarrow> Done st' | Next p i st' \<Rightarrow> common_loop data frameCtl p i st')
      else Done st)"
  by pat_completeness auto
termination
  by (relation "measure (\<lambda>(data, fr, parsed, idx, st). slen data - idx)")
    (auto dest: common_body_advances)

declare common_loop.simps [simp del]

definition common_para_response :: "slice \<Rightarrow> Frame \<Rightarrow> 'a config_state_scheme \<Rightarrow>
    (response_error option \<times> 'a config_state_scheme) outcome" where
  "common_para_response data frameCtl st =
     obind (common_loop data frameCtl 0 0 (st\<lparr>Resources1 := [], ResourcesFlag := False\<rparr>)) (\<lambda>st'.
       Done (None, st'\<lparr>ResourcesFlag := True\<rparr>))"

definition timestamp_response :: "slice \<Rightarrow> Frame \<Rightarrow> 'a config_state_scheme \<Rightarrow>
    (response_error option \<times> 'a config_state_scheme) outcome" where
  "timestamp_response data frameCtl st =
     (let deviceName = name_or_empty (LookupDeviceName (SensorID frameCtl) st) in
      obind (sidx data 0) (\<lambda>b0.
      obind (ssub data 0 4) (\<lambda>quad.
      obind (le32_get (vis quad)) (\<lambda>secs.
        Done (None, SetDeviceValue deviceName ''timestamp'' (VString (Itoa (int (unat b0)))) st)))))"

definition reset_response :: "slice \<Rightarrow> Frame \<Rightarrow> 'a config_state_scheme \<Rightarrow>
    (response_error option \<times> 'a config_state_scheme) outcome" where
  "reset_response data frameCtl st =
     (let deviceName = name_or_empty (LookupDeviceName (SensorID frameCtl) st) in
      obind (sidx data 0) (\<lambda>b0.
        Done (None, SetDeviceValue deviceName ''reset_ctl'' (VString (Itoa (int (unat b0)))) st)))"

definition resetCommands :: "slice \<Rightarrow> Frame \<Rightarrow> 'a gateway_state_scheme \<Rightarrow>
    (response_error option \<times> 'a gateway_state_scheme) outcome" where
  "resetCommands data frameCtl st =
     (let deviceName = name_or_empty (LookupDeviceName (SensorID frameCtl) st) in
      case GetDeviceValue deviceName ''eid'' st of
        None \<Rightarrow> Done (Some (NoEID deviceName), st)
      | Some (VString eidStr) \<Rightarrow>
          (case hex_DecodeString ''238A0841D828'' of
             Inl e \<Rightarrow> Done (Some (EIDHex e), st)
           | Inr eidBytes \<Rightarrow>
               if length eidBytes \<noteq> 6 then Done (Some (EIDLength (length eidBytes)), st)
               else obind (config_RestCommandBuildFrame eidStr eidBytes 1
                   (of_int (clock st div 1000000000)) st)
                 (\<lambda>(err, st'). Done (None, st')))
      | Some v \<Rightarrow> Done (Some (EIDType deviceName v), st))"

section \<open>The response table\<close>

datatype ResponseHandle = CommonPara | Timestamp | ResetResponse | ResetCommands

fun Parse :: "ResponseHandle \<Rightarrow> slice \<Rightarrow> Frame \<Rightarrow> 'a gateway_state_scheme \<Rightarrow>
    (response_error option \<times> 'a gateway_state_scheme) outcome" where
  "Parse CommonPara = common_para_response"
| "Parse Timestamp = timestamp_response"
| "Parse ResetResponse = reset_response"
| "Parse ResetCommands = resetCommands"

datatype ResponseKey = RK (CtrlType: byte) (RequestSetFlag: bool)

definition ResponseMap :: "(ResponseKey \<times> ResponseHandle) list" where
  "ResponseMap =
     [(RK 0x02 False, CommonPara),
      (RK 0x02 True, CommonPara),
      (RK 0x04 True, Timestamp),
      (RK 0x03 True, Timestamp),
      (RK 0x06 False, ResetResponse),
      (RK 0x06 True, ResetResponse),
      (RK 0x04 False, Timestamp),
      (RK 0x07 False, ResetCommands),
      (RK 0x07 False, ResetCommands)]"

definition LookupResponseHandle :: "byte \<Rightarrow> ResponseHandle option" where
  "LookupResponseHandle head =
     (let ctrlType = drop_bit 1 head;
          requestSet = (head AND 0x1 = 1)
      in mget ResponseMap (RK ctrlType requestSet))"

definition handleFrameCtl :: "Frame \<Rightarrow> 'a gateway_state_scheme \<Rightarrow> 'a gateway_state_scheme outcome" where
  "handleFrameCtl frameCtl st =
     (let raw = Payload frameCtl in
      if slen raw < 1 then Done st
      else obind (sidx raw 0) (\<lambda>head.
        case LookupResponseHandle head of
          None \<Rightarrow> Done st
        | Some handle \<Rightarrow>
            obind (ssub raw 1 (slen raw)) (\<lambda>rest.
            obind (Parse handle rest frameCtl st) (\<lambda>(err, st'). Done st'))))"

section \<open>The item loop of the common response\<close>

interpretation common_items: item_loop "common_body data fr" "common_loop data fr" "unat (DataLen fr)"
  for data fr
  by unfold_locales (rule common_loop.simps)

lemma and_3_iff:
  assumes "2 \<le> LENGTH('a)"
  shows "(w :: 'a::len word) AND 3 = 3 \<longleftrightarrow> bit w 0 \<and> bit w 1"
proof -
  have three: "(3 :: 'a word) = mask 2" by (simp add: mask_eq_exp_minus_1)
  show ?thesis
  proof
    assume "w AND 3 = 3"
    then have "bit (w AND 3) 0 = bit (3 :: 'a word) 0" "bit (w AND 3) 1 = bit (3 :: 'a word) 1" by simp_all
    then show "bit w 0 \<and> bit w 1" using assms unfolding three by (simp add: bit_simps)
  next
    assume b: "bit w 0 \<and> bit w 1"
    show "w AND 3 = 3" unfolding three
    proof (rule bit_word_eqI)
      fix n show "bit (w AND mask 2) n \<longleftrightarrow> bit (mask 2 :: 'a word) n"
        using b by (cases "n = 0"; cases "n = 1") (auto simp: bit_simps)
    qed
  qed
qed

lemma flag_of_low_byte: "(ucast a OR push_bit 8 (ucast (b :: byte)) :: u16) AND 3 = 3 \<longleftrightarrow> (a :: byte) AND 3 = 3"
  by (simp add: and_3_iff bit_simps)

lemma two_bit_values: "(w :: u16) AND 3 \<in> {0, 1, 2, 3}"
proof -
  have "unat (w AND 3) < 4"
    unfolding u16_and_3 unsigned_take_bit_eq by (simp add: take_bit_eq_mod)
  then have "unat (w AND 3) = 0 \<or> unat (w AND 3) = 1 \<or> unat (w AND 3) = 2 \<or> unat (w AND 3) = 3"
    by arith
  then show ?thesis
    by (simp add: word_unat_eq_iff)
qed

text \<open>The one read without a bound: a three-byte length on the last four bytes.\<close>

definition ends_in_long_head :: "slice \<Rightarrow> bool" where
  "ends_in_long_head data \<longleftrightarrow> 4 \<le> slen data \<and> vis data ! (slen data - 4) AND 3 = 3"

lemma read_head_Panic:
  assumes "read_head be16_get data idx = Panic" "idx + 4 \<le> slen data"
  shows "ends_in_long_head data"
proof -
  have len: "idx + 1 < length (vis data)" using assms(2) by (simp add: slen_def)
  then have two: "take 2 (drop idx (vis data)) = [vis data ! idx, vis data ! (idx + 1)]"
    by (intro two_at) simp
  let ?h = "ucast (vis data ! idx) OR push_bit 8 (ucast (vis data ! (idx + 1))) :: u16"
  have "read_len be16_get data (idx + 2) (?h AND 3) = Panic"
    using assms by (auto simp: read_head_def ssub_inside two outcome_simps)
  moreover have "be16_get (take 2 (drop (idx + 2) (vis data))) \<noteq> Panic"
    using assms(2) by (simp add: be16_get_Panic_iff slen_def)
  ultimately have "?h AND 3 \<notin> {0, 1, 2}" "slen data \<le> idx + 4"
    using assms(2) by (auto simp: read_len_def outcome_simps slice_simps ssub_inside split: if_splits)
  moreover have "?h AND 3 \<in> {0, 1, 2, 3}"
    using two_bit_values [of ?h] by simp
  ultimately show ?thesis using assms(2) flag_of_low_byte by (simp add: ends_in_long_head_def)
qed

lemma common_body_Panic:
  "common_body data fr parsed idx st = Panic \<Longrightarrow> ends_in_long_head data"
  by (auto simp: common_body_def outcome_simps slice_simps parse_value_total intro: read_head_Panic
      split: if_splits option.splits) (use slen_le_scap [of data] in linarith)

lemma read_head_not_Blocked [simp]: "read_head be16_get s idx \<noteq> Blocked"
  by (auto simp: read_head_def read_len_def outcome_simps split: if_splits)

lemma common_body_not_Blocked [simp]: "common_body data fr parsed idx st \<noteq> Blocked"
  by (auto simp: common_body_def outcome_simps parse_value_total split: if_splits option.splits)

lemma common_loop_outcome:
  "common_loop data fr parsed idx st \<noteq> Blocked \<and>
   (common_loop data fr parsed idx st = Panic \<longrightarrow> ends_in_long_head data)"
proof (induction data fr parsed idx st rule: common_loop.induct)
  case (1 data fr parsed idx st)
  show ?case
  proof (cases "common_body data fr parsed idx st")
    case (Done r)
    then show ?thesis using 1 by (subst (1 2) common_loop.simps) (cases r; auto)
  qed (auto simp: common_loop.simps [of data fr parsed] dest: common_body_Panic)
qed

text \<open>What one well-formed item does.\<close>

definition common_act :: "string \<Rightarrow> wire_item \<Rightarrow> 'a config_state_scheme \<Rightarrow> 'a config_state_scheme" where
  "common_act d it st =
     (write_item d it st)\<lparr>Resources1 := fold (\<lambda>(n, v). mput n v) (decoded [it]) (Resources1 st)\<rparr>"

lemma common_acts:
  "fold (common_act d) its st =
     (write_items d its st)\<lparr>Resources1 := fold (\<lambda>(n, v). mput n v) (decoded its) (Resources1 st)\<rparr>"
  by (induction its arbitrary: st)
    (auto simp: common_act_def write_items_Resources1 split: option.splits)

lemma common_body_item:
  assumes "list_all wf_item its" "vis data = enc_items be16_put its @ tail" "2 \<le> length tail \<or> Suc k < length its"
    and "k < length its" "LookupDeviceName (SensorID fr) st = Some d"
  shows "common_body data fr parsed (length (concat (map (enc_item be16_put) (take k its)))) st =
    Done (Next (parsed + 1) (length (concat (map (enc_item be16_put) (take (Suc k) its))))
      (common_act d (its ! k) st))"
proof -
  let ?i = "length (concat (map (enc_item be16_put) (take k its)))"
  let ?i' = "length (concat (map (enc_item be16_put) (take (Suc k) its)))"
  have v: "vis data = [] @ enc_items be16_put its @ tail" using assms(2) by simp
  obtain j sp where item:
    "read_head be16_get data ?i = Done (wi_type (its ! k), length (wi_data (its ! k)), j)"
    "ssub data j (j + length (wi_data (its ! k))) = Done \<lparr>vis = wi_data (its ! k), spare = sp\<rparr>"
    "j + length (wi_data (its ! k)) = ?i'"
    using be_items.item_at [OF assms(1) v assms(4)] by auto
  have "?i' + 2 \<le> slen data"
  proof (cases "Suc k < length its")
    case True
    have "its = take (Suc k) its @ its ! Suc k # drop (Suc (Suc k)) its"
      using True by (rule id_take_nth_drop)
    then have "enc_items be16_put its = concat (map (enc_item be16_put) (take (Suc k) its))
        @ enc_item be16_put (its ! Suc k) @ concat (map (enc_item be16_put) (drop (Suc (Suc k)) its))"
      unfolding enc_items_def by (metis concat.simps(2) concat_append list.simps(9) map_append)
    then show ?thesis
      using assms(1,2) True be_items.enc_item_min [of "its ! Suc k"] by (simp add: slen_def list_all_length)
  next
    case False
    then have "take (Suc k) its = its" using assms(4) by simp
    then show ?thesis using False assms(2,3) by (simp add: slen_def enc_items_def)
  qed
  moreover have "?i + 2 \<le> j" using read_head_advances [OF item(1)] by simp
  ultimately show ?thesis
    using item assms(5)
    by (auto simp: common_body_def parse_value_total common_act_def write_item_def Let_def split: option.splits)
qed

lemma report_update [simp]:
  "GetDeviceValue d r (st\<lparr>Resources1 := m\<rparr>) = GetDeviceValue d r st"
  "GetDeviceValue d r (st\<lparr>ResourcesFlag := b\<rparr>) = GetDeviceValue d r st"
  "LookupDeviceName e (st\<lparr>Resources1 := m\<rparr>) = LookupDeviceName e st"
  "LookupDeviceName e (st\<lparr>ResourcesFlag := b\<rparr>) = LookupDeviceName e st"
  by (simp_all add: GetDeviceValue_def LookupDeviceName_def)

lemma common_act_frame [simp]: "LookupDeviceName e (common_act d it st) = LookupDeviceName e st"
  by (simp add: common_act_def)

lemma common_acts_lookup [simp]: "LookupDeviceName e (fold (common_act d) its st) = LookupDeviceName e st"
  by (induction its arbitrary: st) simp_all

lemma common_loop_items:
  assumes "list_all wf_item its" "vis data = enc_items be16_put its @ tail"
    and "n \<le> length its" "2 \<le> length tail \<or> n < length its" "n \<le> unat (DataLen fr)"
    and "LookupDeviceName (SensorID fr) st = Some d"
  shows "common_loop data fr 0 0 st =
    common_loop data fr n (length (concat (map (enc_item be16_put) (take n its)))) (fold (common_act d) (take n its) st)"
  using assms(3-5)
proof (induction n)
  case (Suc n)
  let ?st = "fold (common_act d) (take n its) st"
  have "common_body data fr n (length (concat (map (enc_item be16_put) (take n its)))) ?st =
    Done (Next (n + 1) (length (concat (map (enc_item be16_put) (take (Suc n) its)))) (common_act d (its ! n) ?st))"
    using Suc.prems assms(6) by (intro common_body_item [OF assms(1,2)]) auto
  moreover have "fold (common_act d) (take (Suc n) its) st = common_act d (its ! n) ?st"
    using Suc.prems(1) by (simp add: take_Suc_conv_app_nth)
  ultimately show ?case
    using Suc common_items.loop_next [of n fr data] by simp
qed simp

lemma common_loop_stops:
  assumes "list_all wf_item its" "its \<noteq> []" "vis data = enc_items be16_put its @ tail" "length tail < 2"
  shows "common_body data fr parsed (length (concat (map (enc_item be16_put) (butlast its)))) st = Done (Break st)"
proof -
  let ?k = "length its - 1"
  have k: "?k < length its" "take ?k its = butlast its" "take (Suc ?k) its = its"
    using assms(2) by (simp_all add: butlast_conv_take)
  have v: "vis data = [] @ enc_items be16_put its @ tail" using assms(3) by simp
  have len: "slen data < length (concat (map (enc_item be16_put) its)) + 2"
    using assms(3,4) by (simp add: slen_def enc_items_def)
  obtain j where
    "read_head be16_get data (length (concat (map (enc_item be16_put) (butlast its)))) =
       Done (wi_type (its ! ?k), length (wi_data (its ! ?k)), j)"
    "j + length (wi_data (its ! ?k)) = length (concat (map (enc_item be16_put) its))"
    using be_items.item_at [OF assms(1) v k(1)] unfolding k by auto
  then show ?thesis using len by (auto simp: common_body_def)
qed

text \<open>What a response leaves behind when the items \<open>its\<close> were stored for device \<open>d\<close>.\<close>

definition common_result :: "string \<Rightarrow> wire_item list \<Rightarrow> 'a config_state_scheme \<Rightarrow>
    (response_error option \<times> 'a config_state_scheme) outcome \<Rightarrow> bool" where
  "common_result d its st m \<longleftrightarrow>
     (\<exists>st'. m = Done (None, st') \<and> ResourcesFlag st' \<and>
        (\<forall>r. mget (Resources1 st') r = last_value (decoded its) r) \<and>
        (\<forall>d' r. GetDeviceValue d' r st' =
           (case last_value (decoded its) r of
              Some v \<Rightarrow> if d' = d then Some v else GetDeviceValue d' r st
            | None \<Rightarrow> GetDeviceValue d' r st)))"

lemma common_result_acts:
  assumes "common_loop data fr 0 0 (st\<lparr>Resources1 := [], ResourcesFlag := False\<rparr>) =
    Done (fold (common_act d) its (st\<lparr>Resources1 := [], ResourcesFlag := False\<rparr>))"
  shows "common_result d its st (common_para_response data fr st)"
  using assms
  by (auto simp: common_result_def common_para_response_def write_items_get common_acts fold_put_decoded
      split: option.splits)

section \<open>Properties\<close>

lemma common_response_all:
  assumes "list_all wf_item its" "vis data = enc_items be16_put its @ tail" "2 \<le> length tail \<or> its = []"
    and "length its = unat (DataLen fr)" "LookupDeviceName (SensorID fr) st = Some d"
  shows "common_result d its st (common_para_response data fr st)"
proof -
  let ?s0 = "st\<lparr>Resources1 := [], ResourcesFlag := False\<rparr>"
  have "LookupDeviceName (SensorID fr) ?s0 = Some d" using assms(5) by simp
  then have "common_loop data fr 0 0 ?s0 = Done (fold (common_act d) its ?s0)"
    using common_loop_items [OF assms(1,2), of "length its" fr ?s0] assms(3,4)
    by (auto simp: common_items.loop_done)
  then show ?thesis by (rule common_result_acts)
qed

lemma common_response_drops_last_item:
  assumes "list_all wf_item its" "its \<noteq> []" "vis data = enc_items be16_put its @ tail" "length tail < 2"
    and "length its \<le> unat (DataLen fr)" "LookupDeviceName (SensorID fr) st = Some d"
  shows "common_result d (butlast its) st (common_para_response data fr st)"
proof -
  let ?s0 = "st\<lparr>Resources1 := [], ResourcesFlag := False\<rparr>" and ?n = "length its - 1"
  have n: "?n < length its" "take ?n its = butlast its"
    using assms(2) by (simp_all add: butlast_conv_take)
  have "LookupDeviceName (SensorID fr) ?s0 = Some d" using assms(6) by simp
  then have "common_loop data fr 0 0 ?s0 = common_loop data fr ?n
      (length (concat (map (enc_item be16_put) (butlast its)))) (fold (common_act d) (butlast its) ?s0)"
    using common_loop_items [OF assms(1,3), of ?n fr ?s0 d] n assms(5) by simp
  also have "\<dots> = Done (fold (common_act d) (butlast its) ?s0)"
    using assms(5) n(1) by (intro common_items.loop_break common_loop_stops [OF assms(1-4)]) simp
  finally show ?thesis by (rule common_result_acts)
qed

text \<open>C16: a common response whose content is a sequence of well-formed items, as many
  as the head counts, stores every item it can decode, for the device of the sensor ID and in
  the reported resources: each name gets the value of its last item, nothing else changes, and
  the report flag is set. The exception is the last item: the bound of the loop leaves room
  for a checksum that the content no longer has, so unless two more bytes follow, exactly the
  items before the last one are stored.\<close>

theorem common_response_stores_items:
  assumes "list_all wf_item its" "vis data = enc_items be16_put its @ tail"
    and "length its = unat (DataLen fr)" "LookupDeviceName (SensorID fr) st = Some d"
  shows "common_result d (if 2 \<le> length tail then its else butlast its) st (common_para_response data fr st)"
proof (cases "2 \<le> length tail \<or> its = []")
  case True
  then show ?thesis using common_response_all [OF assms(1,2) True assms(3,4)] by auto
next
  case False
  then show ?thesis
    using common_response_drops_last_item [OF assms(1) _ assms(2) _ _ assms(4)] assms(3) by simp
qed

theorem common_response_stores_items_witness:
  "common_result ''Data-Demo'' [\<lparr>wi_type = 1, wi_flag = 1, wi_data = [7]\<rparr>] demo_gateway
     (common_para_response (mk_slice [5, 0, 1, 7, 0, 0])
       \<lparr>SensorID = ''238A08262319'', DataLen = 1, FragInd = 0, PacketType = 5,
        Payload = mk_slice [5, 5, 0, 1, 7, 0, 0], Check = 0\<rparr> demo_gateway) \<and>
   common_result ''Data-Demo'' [] demo_gateway
     (common_para_response (mk_slice [5, 0, 1, 7])
       \<lparr>SensorID = ''238A08262319'', DataLen = 1, FragInd = 0, PacketType = 5,
        Payload = mk_slice [5, 5, 0, 1, 7], Check = 0\<rparr> demo_gateway)"
  using common_response_stores_items [of "[\<lparr>wi_type = 1, wi_flag = 1, wi_data = [7]\<rparr>]"
      "mk_slice [5, 0, 1, 7, 0, 0]" "[0, 0]" "\<lparr>SensorID = ''238A08262319'', DataLen = 1, FragInd = 0, PacketType = 5,
        Payload = mk_slice [5, 5, 0, 1, 7, 0, 0], Check = 0\<rparr>" demo_gateway "''Data-Demo''"]
    common_response_stores_items [of "[\<lparr>wi_type = 1, wi_flag = 1, wi_data = [7]\<rparr>]"
      "mk_slice [5, 0, 1, 7]" "[]" "\<lparr>SensorID = ''238A08262319'', DataLen = 1, FragInd = 0, PacketType = 5,
        Payload = mk_slice [5, 5, 0, 1, 7], Check = 0\<rparr>" demo_gateway "''Data-Demo''"]
  by (simp add: wf_item_def enc_items_def enc_item_def enc_head_def len_field_def le16_put_def
      demo_gateway_def config_state.defs LookupDeviceName_def initial_config_def)

text \<open>The command that a reset request queues, and whether a request gets as far.\<close>

definition reset_command :: "string \<Rightarrow> int \<Rightarrow> string" where
  "reset_command eid now =
     CHR 0x0D # ''AT+DTX='' @ eid @ '','' @
     hex_upper (with_crc ([0x23, 0x8A, 0x08, 0x41, 0xD8, 0x28, 0x04, 0x09] @ le32_put (of_int (now div 1000000000))))
     @ [CHR 0x0D, CHR 0x0A]"

definition reset_eid :: "Frame \<Rightarrow> 'a gateway_state_scheme \<Rightarrow> string option" where
  "reset_eid fr st =
     (case GetDeviceValue (name_or_empty (LookupDeviceName (SensorID fr) st)) ''eid'' st of
        Some (VString e) \<Rightarrow> Some e
      | _ \<Rightarrow> None)"

lemma config_CRC16_CRC16: "config_CRC16 = CRC16"
  by (simp add: fun_eq_iff config_CRC16_def CRC16_def config_crc_round_eq)

lemma eid_constant: "hex_DecodeString ''238A0841D828'' = Inr [0x23, 0x8A, 0x08, 0x41, 0xD8, 0x28]"
  by (simp add: fromHexChar_def)

lemma AT_command:
  "config_RestCommandBuildFrame eid [0x23, 0x8A, 0x08, 0x41, 0xD8, 0x28] 1 (of_int (now div 1000000000)) st =
     obind (send_WriteChan (reset_command eid now) st) (\<lambda>st'. Done (None, st'))"
  by (simp add: config_RestCommandBuildFrame_def config_SendFrame_def reset_command_def with_crc_def
      config_CRC16_CRC16 Let_def)

lemma resetCommands_send:
  assumes "reset_eid fr st = Some eid"
  shows "resetCommands data fr st =
    obind (send_WriteChan (reset_command eid (clock st)) st) (\<lambda>st'. Done (None, st'))"
proof -
  have g: "GetDeviceValue (name_or_empty (LookupDeviceName (SensorID fr) st)) ''eid'' st = Some (VString eid)"
    using assms by (auto simp: reset_eid_def split: option.splits gvalue.splits)
  show ?thesis
    by (simp add: resetCommands_def g eid_constant AT_command obind_assoc Let_def del: hex_DecodeString.simps)
qed

lemma resetCommands_quiet:
  "reset_eid fr st = None \<Longrightarrow> \<exists>err. resetCommands data fr st = Done (Some err, st)"
  by (auto simp: reset_eid_def resetCommands_def split: option.splits gvalue.splits)

definition response_of :: "Frame \<Rightarrow> ResponseHandle option" where
  "response_of fr =
     (if slen (Payload fr) = 0 then None else LookupResponseHandle (vis (Payload fr) ! 0))"



end
