(* ===== verification/Sharding.thy ===== *)
theory Sharding
  imports CtlResponse
begin

text \<open>
  Fragmented messages (\<open>frameparser/sharding.go\<close>): the reassembly cache, the
  acknowledgement of every fragment, the reassembly timers and the parser of reassembled
  messages. A timer is armed; it may fire, after which its callback waits for the lock and
  then runs, whatever has happened to the cache in between.
\<close>

section \<open>State\<close>

record SDUCache =
  sc_SSEQ :: byte
  sc_expected :: byte
  sc_finalPSEQ :: byte
  sc_buffer :: bytes
  sc_outOfOrder :: "(byte \<times> bytes) list"
  sc_timer :: nat

text \<open>What the callback of a timer has captured.\<close>

record timer_closure =
  tm_sensorKey :: string
  tm_SSEQ :: byte
  tm_PSEQ :: byte

record shard_state = gateway_state +
  sduCaches :: "SDUCache gomap"
  armed :: "(nat \<times> timer_closure) list"
  next_timer :: nat
  firing :: "timer_closure list"
  SDUCh :: "Frame list"

definition sdu_capacity :: nat where
  "sdu_capacity = 100"

definition send_SDUCh :: "Frame \<Rightarrow> 'a shard_state_scheme \<Rightarrow> 'a shard_state_scheme outcome" where
  "send_SDUCh frame st =
     (if length (SDUCh st) < sdu_capacity then Done (st\<lparr>SDUCh := SDUCh st @ [frame]\<rparr>) else Blocked)"

definition isStart :: "byte \<Rightarrow> bool" where
  "isStart pseq \<longleftrightarrow> drop_bit 7 pseq AND 0x1 = 0"

definition isEnd :: "byte \<Rightarrow> bool" where
  "isEnd pseq \<longleftrightarrow> drop_bit 7 pseq AND 0x1 = 1"

section \<open>Acknowledgements\<close>

definition ack_word :: "byte \<Rightarrow> bool \<Rightarrow> byte \<Rightarrow> u16" where
  "ack_word sseq ackOK pseq =
     (let ackBits = (if ackOK then 0x3 else 0x0 :: byte)
      in push_bit 14 (ucast (ackBits AND 0x3)) OR push_bit 8 (ucast (sseq AND 0x3F)) OR ucast (pseq AND 0x7F))"

definition ack_frame :: "string \<Rightarrow> byte \<Rightarrow> bool \<Rightarrow> byte \<Rightarrow> Frame" where
  "ack_frame sensorKey sseq ackOK pseq =
     (let ackData = be16_put (ack_word sseq ackOK pseq)
      in \<lparr>SensorID = sensorKey, DataLen = 1, FragInd = 0, PacketType = 6,
          Payload = mk_slice ackData, Check = CRC16 ackData\<rparr>)"

definition sendAck :: "string \<Rightarrow> byte \<Rightarrow> bool \<Rightarrow> byte \<Rightarrow>
    'a gateway_state_scheme \<Rightarrow> 'a gateway_state_scheme" where
  "sendAck sensorKey sseq ackOK pseq st =
     SendFrame sensorKey (Frame_Bytes (ack_frame sensorKey sseq ackOK pseq)) st"

section \<open>Reassembly\<close>

definition stop_timer :: "nat \<Rightarrow> 'a shard_state_scheme \<Rightarrow> 'a shard_state_scheme" where
  "stop_timer i st = st\<lparr>armed := mdel i (armed st)\<rparr>"

definition drop_cache :: "string \<Rightarrow> 'a shard_state_scheme \<Rightarrow> 'a shard_state_scheme" where
  "drop_cache sensorKey st = st\<lparr>sduCaches := mdel sensorKey (sduCaches st)\<rparr>"

definition put_cache :: "string \<Rightarrow> SDUCache \<Rightarrow> 'a shard_state_scheme \<Rightarrow> 'a shard_state_scheme" where
  "put_cache sensorKey cache st = st\<lparr>sduCaches := mput sensorKey cache (sduCaches st)\<rparr>"

definition finalize :: "string \<Rightarrow> Frame \<Rightarrow> 'a shard_state_scheme \<Rightarrow> 'a shard_state_scheme outcome" where
  "finalize sensorKey frame st =
     (case mget (sduCaches st) sensorKey of
        None \<Rightarrow> Panic
      | Some cache \<Rightarrow>
          (let st' = drop_cache sensorKey (stop_timer (sc_timer cache) st);
               payload = Payload frame
           in send_SDUCh
                (frame\<lparr>Payload := payload\<lparr>vis := go_copy (vis payload) (sc_buffer cache)\<rparr>\<rparr>) st'))"

text \<open>A fragment for a sensor without a cache.\<close>

definition first_fragment :: "Frame \<Rightarrow> byte \<Rightarrow> byte \<Rightarrow> bytes \<Rightarrow>
    'a shard_state_scheme \<Rightarrow> 'a shard_state_scheme outcome" where
  "first_fragment frame SSEQ PSEQ data st =
     (let sensorKey = SensorID frame in
      if isStart PSEQ then
        (let t = next_timer st;
             cache = \<lparr>sc_SSEQ = SSEQ, sc_expected = PSEQ + 1, sc_finalPSEQ = 0, sc_buffer = data,
               sc_outOfOrder = [], sc_timer = t\<rparr>;
             st1 = put_cache sensorKey cache
               (st\<lparr>armed := mput t \<lparr>tm_sensorKey = sensorKey, tm_SSEQ = SSEQ, tm_PSEQ = PSEQ\<rparr> (armed st),
                   next_timer := t + 1\<rparr>);
             st2 = sendAck sensorKey SSEQ True PSEQ st1
         in if isEnd PSEQ
            then finalize sensorKey frame (put_cache sensorKey (cache\<lparr>sc_finalPSEQ := PSEQ\<rparr>) st2)
            else Done st2)
      else Done (sendAck sensorKey SSEQ False PSEQ st))"

text \<open>The merge of buffered fragments into the buffer.\<close>

function merge_ready :: "SDUCache \<Rightarrow> SDUCache" where
  "merge_ready cache =
     (case mget (sc_outOfOrder cache) (sc_expected cache) of
        None \<Rightarrow> cache
      | Some d \<Rightarrow>
          merge_ready (cache\<lparr>sc_outOfOrder := mdel (sc_expected cache) (sc_outOfOrder cache),
            sc_buffer := sc_buffer cache @ d, sc_expected := sc_expected cache + 1\<rparr>))"
  by pat_completeness auto

lemma length_mdel_less: "mget m k = Some v \<Longrightarrow> length (mdel k m) < length m"
  by (induction m) (auto simp: less_Suc_eq_le length_delete_le split: if_splits)

termination merge_ready
  by (relation "measure (\<lambda>c. length (sc_outOfOrder c))") (auto intro: length_mdel_less)

declare merge_ready.simps [simp del]

text \<open>A fragment of the transfer that the cache collects.\<close>

definition next_fragment :: "Frame \<Rightarrow> byte \<Rightarrow> byte \<Rightarrow> bytes \<Rightarrow> SDUCache \<Rightarrow>
    'a shard_state_scheme \<Rightarrow> 'a shard_state_scheme outcome" where
  "next_fragment frame SSEQ PSEQ data cache st =
     (let sensorKey = SensorID frame in
      if PSEQ < sc_expected cache then Done (sendAck sensorKey SSEQ True PSEQ st)
      else if PSEQ > sc_expected cache then
        (let c1 = cache\<lparr>sc_outOfOrder := mput PSEQ data (sc_outOfOrder cache)\<rparr>;
             c2 = (if isEnd PSEQ then c1\<lparr>sc_finalPSEQ := PSEQ\<rparr> else c1)
         in Done (put_cache sensorKey c2 (sendAck sensorKey SSEQ True PSEQ st)))
      else
        (let c1 = cache\<lparr>sc_buffer := sc_buffer cache @ data, sc_expected := sc_expected cache + 1\<rparr>;
             c2 = (if isEnd PSEQ then c1\<lparr>sc_finalPSEQ := PSEQ\<rparr> else c1);
             c3 = merge_ready c2;
             st' = put_cache sensorKey c3 (sendAck sensorKey SSEQ True PSEQ st)
         in if sc_finalPSEQ c3 \<noteq> 0 \<and> sc_expected c3 > sc_finalPSEQ c3
            then finalize sensorKey frame st'
            else Done st'))"

function ProcessFrame :: "Frame \<Rightarrow> 'a shard_state_scheme \<Rightarrow> 'a shard_state_scheme outcome" where
  "ProcessFrame frame st =
     obind (ssub (Payload frame) 0 2) (\<lambda>head.
     obind (be16_get (vis head)) (\<lambda>two.
       let SSEQ = ucast (drop_bit 10 two); sensorKey = SensorID frame in
       if FragInd frame = 0 then send_SDUCh frame (sendAck sensorKey SSEQ True 0 st)
       else if slen (Payload frame) < 4 then Done (sendAck sensorKey SSEQ False 0 st)
       else
         let PSEQ = ucast (drop_bit 1 two AND 0x7F) in
         obind (ssub (Payload frame) 2 4) (\<lambda>sz.
         obind (le16_get (vis sz)) (\<lambda>size.
           if slen (Payload frame) < 4 + unat size then Done (sendAck sensorKey SSEQ False PSEQ st)
           else obind (ssub (Payload frame) 4 (4 + unat size)) (\<lambda>data.
             case mget (sduCaches st) sensorKey of
               None \<Rightarrow> first_fragment frame SSEQ PSEQ (vis data) st
             | Some cache \<Rightarrow>
                 if sc_SSEQ cache \<noteq> SSEQ then
                   (if isStart PSEQ
                    then ProcessFrame frame (drop_cache sensorKey (stop_timer (sc_timer cache) st))
                    else Done (sendAck sensorKey SSEQ False PSEQ st))
                 else next_fragment frame SSEQ PSEQ (vis data) cache st)))))"
  by pat_completeness auto
termination ProcessFrame
  by (relation "measure (\<lambda>(frame, st). length (sduCaches st))")
    (auto simp: drop_cache_def stop_timer_def intro: length_mdel_less)

declare ProcessFrame.simps [simp del]

section \<open>Timeouts\<close>

text \<open>An armed timer fires: from now on stopping it has no effect on its callback.\<close>

definition timer_fires :: "nat \<Rightarrow> timer_closure \<Rightarrow> 'a shard_state_scheme \<Rightarrow> 'a shard_state_scheme" where
  "timer_fires i tm st = st\<lparr>armed := mdel i (armed st), firing := firing st @ [tm]\<rparr>"

text \<open>The callback: it deletes the cache of its sensor, then reports the failure.\<close>

definition run_timeout :: "timer_closure \<Rightarrow> 'a shard_state_scheme \<Rightarrow> 'a shard_state_scheme" where
  "run_timeout tm st =
     sendAck (tm_sensorKey tm) (tm_SSEQ tm) False (tm_PSEQ tm)
       (drop_cache (tm_sensorKey tm) (st\<lparr>firing := remove1 tm (firing st)\<rparr>))"

section \<open>The parser of reassembled messages\<close>

definition shard_body :: "Frame \<Rightarrow> nat \<Rightarrow> nat \<Rightarrow> 'a config_state_scheme \<Rightarrow>
    'a config_state_scheme round outcome" where
  "shard_body frame parsed idx st =
     (let pl = Payload frame in
      if int idx + 2 > int (slen pl) - 2 then Done (Break st)
      else obind (read_head be16_get pl idx) (\<lambda>(paramType, dataLen, j).
        if int j + int dataLen > int (slen pl) - 2 then Done (Break st)
        else obind (ssub pl j (j + dataLen)) (\<lambda>valBytes.
          case LookupDeviceName (SensorID frame) st of
            None \<Rightarrow> Done (Next parsed (j + dataLen) st)
          | Some deviceName \<Rightarrow>
              obind (parse_value paramType (vis valBytes) st) (\<lambda>(r, st').
                Done (Next (parsed + 1) (j + dataLen)
                  (case r of
                     None \<Rightarrow> st'
                   | Some (name, val) \<Rightarrow> SetDeviceValue deviceName name val st'))))))"

lemma shard_body_advances:
  "shard_body fr parsed idx st = Done (Next p i st') \<Longrightarrow> idx < i \<and> i < slen (Payload fr) \<and> parsed \<le> p"
  by (auto simp: shard_body_def outcome_simps Let_def dest!: read_head_advances split: if_splits option.splits)

function shard_loop :: "Frame \<Rightarrow> nat \<Rightarrow> nat \<Rightarrow> 'a config_state_scheme \<Rightarrow>
    'a config_state_scheme outcome" where
  "shard_loop frame parsed idx st =
     (if parsed < unat (DataLen frame)
      then obind (shard_body frame parsed idx st) (\<lambda>r.
        case r of Break st' \<Rightarrow> Done st' | Next p i st' \<Rightarrow> shard_loop frame p i st')
      else Done st)"
  by pat_completeness auto
termination
  by (relation "measure (\<lambda>(fr, parsed, idx, st). slen (Payload fr) - idx)")
    (auto dest: shard_body_advances)

declare shard_loop.simps [simp del]

text \<open>The frames received until the channel is closed.\<close>

fun ShardingParser :: "Frame list \<Rightarrow> 'a config_state_scheme \<Rightarrow> 'a config_state_scheme outcome" where
  "ShardingParser [] st = Done st"
| "ShardingParser (frame # frames) st =
     obind (shard_loop frame 0 0 st) (\<lambda>st'. ShardingParser frames st')"

section \<open>The parser of reassembled messages is the common response parser\<close>

interpretation shard_items: item_loop "shard_body fr" "shard_loop fr" "unat (DataLen fr)" for fr
  by unfold_locales (rule shard_loop.simps)

definition with_report :: "gvalue gomap \<Rightarrow> bool \<Rightarrow> 'a config_state_scheme \<Rightarrow> 'a config_state_scheme" where
  "with_report m b st = st\<lparr>Resources1 := m, ResourcesFlag := b\<rparr>"

fun round_map :: "('s \<Rightarrow> 't) \<Rightarrow> 's round \<Rightarrow> 't round" where
  "round_map f (Break st) = Break (f st)"
| "round_map f (Next p i st) = Next p i (f st)"

lemma shard_body_common:
  "shard_body fr p i (with_report m b st) =
     obind (common_body (Payload fr) fr p i st) (\<lambda>r. Done (round_map (with_report m b) r))"
proof (cases "read_head be16_get (Payload fr) i")
  case (Done h)
  obtain t n j where "h = (t, n, j)" by (cases h) auto
  then show ?thesis using Done
    by (cases "ssub (Payload fr) j (j + n)")
      (auto simp: shard_body_def common_body_def parse_value_total SetDeviceValue_def note_topo_def
        with_report_def LookupDeviceName_def Let_def split: option.splits gvalue.splits)
qed (auto simp: shard_body_def common_body_def Let_def)

lemma shard_loop_common:
  "shard_loop fr p i (with_report m b st) =
     obind (common_loop (Payload fr) fr p i st) (\<lambda>s. Done (with_report m b s))"
proof (induction "Payload fr" fr p i st rule: common_loop.induct)
  case (1 fr p i st)
  show ?case
  proof (cases "p < unat (DataLen fr)")
    case True
    note unfold = common_loop.simps [of "Payload fr" fr p] shard_loop.simps [of fr p] shard_body_common
    show ?thesis
    proof (cases "common_body (Payload fr) fr p i st")
      case (Done r)
      then show ?thesis using True 1 by (cases r) (simp_all add: unfold)
    qed (use True in \<open>simp_all add: unfold\<close>)
  qed (simp add: common_loop.simps shard_loop.simps)
qed

text \<open>C39: the parser of reassembled messages is the second copy of the item
  loop of the common response. On every frame and state both finish alike, and what they
  leave behind differs in the reported resources and the report flag only.\<close>

theorem shard_parser_is_common_response:
  "ShardingParser [fr] st =
     obind (common_para_response (Payload fr) fr st) (\<lambda>(err, st').
       Done (st'\<lparr>Resources1 := Resources1 st, ResourcesFlag := ResourcesFlag st\<rparr>))"
  using shard_loop_common [of fr 0 0 "Resources1 st" "ResourcesFlag st" "with_report [] False st"]
  by (simp add: common_para_response_def with_report_def obind_assoc)

section \<open>What a fragment does\<close>

lemma pseq_less: "ucast (drop_bit 1 (two :: u16) AND 0x7F) < (128 :: byte)"
proof -
  have "drop_bit 1 two AND 0x7F = take_bit 7 (drop_bit 1 two)"
    by (simp add: take_bit_eq_mask mask_eq_exp_minus_1)
  then have "unat (ucast (drop_bit 1 two AND 0x7F) :: byte) < 128"
    by (simp add: unsigned_ucast_eq unsigned_take_bit_eq take_bit_eq_mod unat_mod_distrib)
  then show ?thesis by (simp add: word_less_nat_alt)
qed

lemma byte_7bits: "(p :: byte) < 128 \<Longrightarrow> drop_bit 7 p = 0"
proof -
  assume "p < 128"
  then have "unat (drop_bit 7 p) = 0"
    by (simp add: unat_drop_bit_eq drop_bit_eq_div word_less_nat_alt unat_div_distrib)
  then show ?thesis by (simp add: unat_eq_0)
qed

lemma every_fragment_starts [simp]: "p < 128 \<Longrightarrow> isStart p"
  by (simp add: isStart_def byte_7bits)

lemma no_fragment_ends [simp]: "p < 128 \<Longrightarrow> \<not> isEnd p"
  by (simp add: isEnd_def byte_7bits)

lemma Frame_Bytes_nonempty [simp]: "Frame_Bytes f \<noteq> []"
  by (simp add: Frame_Bytes_def)

lemma sendAck_publishes:
  "sendAck k s ok p st =
     st\<lparr>published := published st @ [downlink (Frame_Bytes (ack_frame k s ok p)) (clock st)]\<rparr>"
  by (simp add: sendAck_def SendFrame_publishes)

lemma merge_ready_keeps [simp]:
  "sc_finalPSEQ (merge_ready c) = sc_finalPSEQ c" "sc_SSEQ (merge_ready c) = sc_SSEQ c"
  "sc_timer (merge_ready c) = sc_timer c"
  by (induction c rule: merge_ready.induct; subst merge_ready.simps; simp split: option.splits)+

text \<open>The content of a fragment frame, and the effect of a fragment on the caches.\<close>

datatype pdu = Malformed byte byte | Fragment byte byte bytes

definition read_pdu :: "slice \<Rightarrow> pdu outcome" where
  "read_pdu pl =
     obind (ssub pl 0 2) (\<lambda>head.
     obind (be16_get (vis head)) (\<lambda>two.
       let SSEQ = ucast (drop_bit 10 two); PSEQ = ucast (drop_bit 1 two AND 0x7F) in
       if slen pl < 4 then Done (Malformed SSEQ 0)
       else
         obind (ssub pl 2 4) (\<lambda>sz.
         obind (le16_get (vis sz)) (\<lambda>size.
           if slen pl < 4 + unat size then Done (Malformed SSEQ PSEQ)
           else obind (ssub pl 4 (4 + unat size)) (\<lambda>data. Done (Fragment SSEQ PSEQ (vis data)))))))"

definition start_cache :: "string \<Rightarrow> byte \<Rightarrow> byte \<Rightarrow> bytes \<Rightarrow>
    'a shard_state_scheme \<Rightarrow> 'a shard_state_scheme" where
  "start_cache k s p d st =
     put_cache k \<lparr>sc_SSEQ = s, sc_expected = p + 1, sc_finalPSEQ = 0, sc_buffer = d,
         sc_outOfOrder = [], sc_timer = next_timer st\<rparr>
       (st\<lparr>armed := mput (next_timer st) \<lparr>tm_sensorKey = k, tm_SSEQ = s, tm_PSEQ = p\<rparr> (armed st),
           next_timer := next_timer st + 1\<rparr>)"

definition collect :: "byte \<Rightarrow> bytes \<Rightarrow> SDUCache \<Rightarrow> SDUCache" where
  "collect p d c =
     (if p < sc_expected c then c
      else if p > sc_expected c then c\<lparr>sc_outOfOrder := mput p d (sc_outOfOrder c)\<rparr>
      else merge_ready (c\<lparr>sc_buffer := sc_buffer c @ d, sc_expected := sc_expected c + 1\<rparr>))"

definition deliver :: "string \<Rightarrow> byte \<Rightarrow> byte \<Rightarrow> bytes \<Rightarrow>
    'a shard_state_scheme \<Rightarrow> 'a shard_state_scheme" where
  "deliver k s p d st =
     (case mget (sduCaches st) k of
        None \<Rightarrow> start_cache k s p d st
      | Some c \<Rightarrow>
          if sc_SSEQ c \<noteq> s then start_cache k s p d (drop_cache k (stop_timer (sc_timer c) st))
          else if p < sc_expected c then st
          else put_cache k (collect p d c) st)"

fun fragment_effect :: "string \<Rightarrow> pdu \<Rightarrow> 'a shard_state_scheme \<Rightarrow> 'a shard_state_scheme" where
  "fragment_effect k (Malformed s p) st = sendAck k s False p st"
| "fragment_effect k (Fragment s p d) st = sendAck k s True p (deliver k s p d st)"

definition unfinished :: "'a shard_state_scheme \<Rightarrow> bool" where
  "unfinished st \<longleftrightarrow> (\<forall>k c. mget (sduCaches st) k = Some c \<longrightarrow> sc_finalPSEQ c = 0)"

lemma first_fragment_eq:
  "p < 128 \<Longrightarrow> first_fragment fr s p d st =
     Done (sendAck (SensorID fr) s True p (start_cache (SensorID fr) s p d st))"
  by (simp add: first_fragment_def start_cache_def Let_def)

lemma next_fragment_eq:
  "p < 128 \<Longrightarrow> sc_finalPSEQ c = 0 \<Longrightarrow> next_fragment fr s p d c st =
     Done (sendAck (SensorID fr) s True p
       (if p < sc_expected c then st else put_cache (SensorID fr) (collect p d c) st))"
  by (auto simp: next_fragment_def collect_def put_cache_def sendAck_publishes Let_def)

lemma read_pdu_seq: "read_pdu pl = Done (Fragment s p d) \<Longrightarrow> p < 128"
  by (auto simp: read_pdu_def outcome_simps Let_def pseq_less [unfolded One_nat_def] split: if_splits)

lemma ProcessFrame_fragment:
  assumes "FragInd fr \<noteq> 0" "unfinished st"
  shows "ProcessFrame fr st =
    obind (read_pdu (Payload fr)) (\<lambda>pdu. Done (fragment_effect (SensorID fr) pdu st))"
proof (cases "read_pdu (Payload fr)")
  case (Done pdu)
  show ?thesis
  proof (cases pdu)
    case (Malformed s p)
    then show ?thesis using Done assms(1)
      by (subst ProcessFrame.simps)
        (auto simp: read_pdu_def outcome_simps Let_def split: if_splits)
  next
    case (Fragment s p d)
    note p = read_pdu_seq [OF Done [unfolded Fragment]]
    have step: "ProcessFrame fr s1 =
        (case mget (sduCaches s1) (SensorID fr) of
           None \<Rightarrow> first_fragment fr s p d s1
         | Some cache \<Rightarrow>
             if sc_SSEQ cache \<noteq> s
             then ProcessFrame fr (drop_cache (SensorID fr) (stop_timer (sc_timer cache) s1))
             else next_fragment fr s p d cache s1)" for s1
      using Done Fragment assms(1) p
      by (subst ProcessFrame.simps)
        (auto simp: read_pdu_def outcome_simps Let_def split: if_splits option.splits)
    show ?thesis
    proof (cases "mget (sduCaches st) (SensorID fr)")
      case None
      then show ?thesis using Done Fragment p by (simp add: step first_fragment_eq deliver_def)
    next
      case (Some c)
      then have "sc_finalPSEQ c = 0" using assms(2) by (auto simp: unfinished_def)
      moreover have "mget (sduCaches (drop_cache k s1)) k = None" for k and s1 :: "'a shard_state_scheme"
        by (simp add: drop_cache_def mget_del)
      ultimately show ?thesis
        using Done Fragment p Some
        by (subst step, simp, subst step) (simp add: first_fragment_eq next_fragment_eq deliver_def)
    qed
  qed
next
  case Panic
  then show ?thesis using assms(1)
    by (subst ProcessFrame.simps)
      (auto simp: read_pdu_def outcome_simps Let_def split: if_splits)
next
  case Blocked
  then show ?thesis by (auto simp: read_pdu_def outcome_simps Let_def split: if_splits)
qed

section \<open>Reachable states\<close>

inductive shard_step :: "'a shard_state_scheme \<Rightarrow> 'a shard_state_scheme \<Rightarrow> bool" where
  fragment: "FragInd fr \<noteq> 0 \<Longrightarrow> ProcessFrame fr st = Done st' \<Longrightarrow> shard_step st st'"
| fires: "mget (armed st) i = Some tm \<Longrightarrow> shard_step st (timer_fires i tm st)"
| timeout: "tm \<in> set (firing st) \<Longrightarrow> shard_step st (run_timeout tm st)"

inductive_cases shard_stepE: "shard_step st st'"

definition shard_initial :: "'a shard_state_scheme \<Rightarrow> bool" where
  "shard_initial st \<longleftrightarrow> sduCaches st = [] \<and> armed st = [] \<and> firing st = [] \<and> SDUCh st = []"

definition cache_ok :: "SDUCache \<Rightarrow> bool" where
  "cache_ok c \<longleftrightarrow> sc_finalPSEQ c = 0 \<and> 0 < sc_expected c \<and> sc_expected c \<le> 128 \<and>
     (\<forall>k d. mget (sc_outOfOrder c) k = Some d \<longrightarrow> sc_expected c < k \<and> k < 128)"

definition has_timeout :: "'a shard_state_scheme \<Rightarrow> string \<Rightarrow> SDUCache \<Rightarrow> bool" where
  "has_timeout st k c \<longleftrightarrow> sc_timer c < next_timer st \<and>
     (\<forall>tm. mget (armed st) (sc_timer c) = Some tm \<longrightarrow> tm_sensorKey tm = k) \<and>
     (mget (armed st) (sc_timer c) = None \<longrightarrow> k \<in> tm_sensorKey ` set (firing st))"

definition shard_inv :: "'a shard_state_scheme \<Rightarrow> bool" where
  "shard_inv st \<longleftrightarrow> SDUCh st = [] \<and>
     (\<forall>i tm. mget (armed st) i = Some tm \<longrightarrow> i < next_timer st) \<and>
     (\<forall>k c. mget (sduCaches st) k = Some c \<longrightarrow> cache_ok c \<and> has_timeout st k c)"

lemma byte_suc: "(e :: byte) < 128 \<Longrightarrow> unat (e + 1) = Suc (unat e)"
  by (simp add: word_less_nat_alt unat_word_ariths)

lemma byte_suc_le: "(e :: byte) < 128 \<Longrightarrow> e < k \<Longrightarrow> e + 1 \<le> k"
  using byte_suc [of e] by (simp add: word_le_nat_alt word_less_nat_alt)

lemma byte_suc_bounds: "(e :: byte) < 128 \<Longrightarrow> 0 < e + 1 \<and> e + 1 \<le> 128"
  using byte_suc [of e] by (simp add: word_le_nat_alt word_less_nat_alt)

lemma merge_ready_ok:
  assumes "sc_finalPSEQ c = 0" "0 < sc_expected c" "sc_expected c \<le> 128"
    and "\<And>k d. mget (sc_outOfOrder c) k = Some d \<Longrightarrow> sc_expected c \<le> k \<and> k < 128"
  shows "cache_ok (merge_ready c)"
  using assms
proof (induction c rule: merge_ready.induct)
  case (1 c)
  show ?case
  proof (cases "mget (sc_outOfOrder c) (sc_expected c)")
    case None
    have "sc_expected c < k \<and> k < 128" if "mget (sc_outOfOrder c) k = Some d" for k d
      using 1(5) [OF that] that None by (metis option.distinct(1) order_le_neq_trans)
    then show ?thesis using None 1(2-4) by (subst merge_ready.simps) (simp add: cache_ok_def)
  next
    case (Some d)
    have e: "sc_expected c < 128" using 1(5) [OF Some] by simp
    have "sc_expected c + 1 \<le> k \<and> k < 128"
      if "mget (mdel (sc_expected c) (sc_outOfOrder c)) k = Some u" for k u
    proof -
      have "k \<noteq> sc_expected c" "mget (sc_outOfOrder c) k = Some u"
        using that by (auto simp: mget_del split: if_splits)
      then show ?thesis using 1(5) [of k u] byte_suc_le [OF e, of k] by (simp add: order_less_le)
    qed
    then show ?thesis
      using Some 1(1) [OF Some] 1(2) byte_suc_bounds [OF e] by (subst merge_ready.simps) simp
  qed
qed

lemma collect_ok:
  assumes "cache_ok c" "p < 128"
  shows "cache_ok (collect p d c)"
proof -
  consider "p < sc_expected c" | "sc_expected c < p" | "p = sc_expected c" by fastforce
  then show ?thesis
  proof cases
    case 1
    then show ?thesis using assms by (simp add: collect_def)
  next
    case 2
    then show ?thesis using assms by (auto simp: collect_def cache_ok_def mget_put)
  next
    case 3
    have "cache_ok (merge_ready (c\<lparr>sc_buffer := sc_buffer c @ d, sc_expected := sc_expected c + 1\<rparr>))"
      using assms byte_suc_bounds [OF assms(2)] byte_suc_le [OF assms(2)] 3
      by (intro merge_ready_ok) (auto simp: cache_ok_def)
    then show ?thesis using 3 by (simp add: collect_def)
  qed
qed

lemma collect_timer [simp]: "sc_timer (collect p d c) = sc_timer c"
  by (simp add: collect_def)

lemma start_cache_inv:
  assumes "shard_inv st" "p < 128"
  shows "shard_inv (start_cache k s p d st)"
  using assms byte_suc_bounds [OF assms(2)]
  by (auto simp: shard_inv_def start_cache_def put_cache_def has_timeout_def cache_ok_def mget_put
      less_Suc_eq split: if_splits) (metis less_irrefl_nat)

lemma drop_cache_inv:
  assumes "shard_inv st" "mget (sduCaches st) k = Some c"
  shows "shard_inv (drop_cache k (stop_timer (sc_timer c) st))"
  using assms
  by (auto simp: shard_inv_def drop_cache_def stop_timer_def has_timeout_def mget_del
      split: if_splits) (metis not_None_eq)

lemma put_collect_inv:
  assumes "shard_inv st" "mget (sduCaches st) k = Some c" "p < 128"
  shows "shard_inv (put_cache k (collect p d c) st)"
  using assms collect_ok [of c p d]
  by (auto simp: shard_inv_def put_cache_def has_timeout_def mget_put split: if_splits)

lemma sendAck_inv [simp]: "shard_inv (sendAck k s ok p st) \<longleftrightarrow> shard_inv st"
  by (simp add: sendAck_publishes shard_inv_def has_timeout_def)

lemma deliver_inv: "shard_inv st \<Longrightarrow> p < 128 \<Longrightarrow> shard_inv (deliver k s p d st)"
  by (auto simp: deliver_def start_cache_inv drop_cache_inv put_collect_inv split: option.splits)

lemma shard_inv_unfinished: "shard_inv st \<Longrightarrow> unfinished st"
  by (auto simp: shard_inv_def unfinished_def cache_ok_def)

lemma timer_fires_inv:
  "shard_inv st \<Longrightarrow> mget (armed st) i = Some tm \<Longrightarrow> shard_inv (timer_fires i tm st)"
  by (auto simp: shard_inv_def timer_fires_def has_timeout_def mget_del split: if_splits option.splits)

lemma image_remove1: "k \<in> f ` set xs \<Longrightarrow> k \<noteq> f x \<Longrightarrow> k \<in> f ` set (remove1 x xs)"
  by (metis (no_types, lifting) image_iff in_set_remove1)

lemma run_timeout_inv: "shard_inv st \<Longrightarrow> shard_inv (run_timeout tm st)"
  unfolding run_timeout_def sendAck_inv
  by (simp add: shard_inv_def drop_cache_def has_timeout_def mget_del image_remove1)

lemma shard_step_inv: "shard_step st st' \<Longrightarrow> shard_inv st \<Longrightarrow> shard_inv st'"
proof (induction rule: shard_step.induct)
  case (fragment fr st st')
  then obtain pdu where "read_pdu (Payload fr) = Done pdu" "st' = fragment_effect (SensorID fr) pdu st"
    using ProcessFrame_fragment [OF fragment(1) shard_inv_unfinished [OF fragment(3)]] by (auto simp: outcome_simps)
  then show ?case
    using fragment(3) by (cases pdu) (auto intro!: deliver_inv dest: read_pdu_seq)
qed (simp_all add: timer_fires_inv run_timeout_inv)

lemma shard_reachable_inv: "shard_step\<^sup>*\<^sup>* st0 st \<Longrightarrow> shard_inv st0 \<Longrightarrow> shard_inv st"
  by (induction rule: rtranclp_induct) (auto dest: shard_step_inv)

lemma shard_initial_inv: "shard_initial st \<Longrightarrow> shard_inv st"
  by (simp add: shard_initial_def shard_inv_def)

text \<open>C21: whatever fragments arrive and whenever timers fire, in every reachable
  state no reassembled message has been handed on: the first-and-last test looks at bit 7 of
  a seven-bit sequence number, so every fragment counts as a first one and none as a last
  one. What a reachable state does keep: every cache expects a number between 1 and 128, its
  out-of-order fragments lie strictly between the expected number and 128, and its timeout
  is armed or about to run, so no cache stays for ever.\<close>

theorem reassembly_never_delivers:
  assumes "shard_step\<^sup>*\<^sup>* st0 st" "shard_initial st0"
  shows "SDUCh st = [] \<and>
    (\<forall>k c. mget (sduCaches st) k = Some c \<longrightarrow> cache_ok c \<and> has_timeout st k c)"
  using shard_reachable_inv [OF assms(1) shard_initial_inv [OF assms(2)]]
  by (simp add: shard_inv_def)

definition demo_shards :: shard_state where
  "demo_shards = gateway_state.extend demo_gateway
     \<lparr>sduCaches = [], armed = [], next_timer = 0, firing = [], SDUCh = []\<rparr>"

lemma demo_shards_simps [simp]:
  "sduCaches demo_shards = []" "armed demo_shards = []" "firing demo_shards = []" "SDUCh demo_shards = []"
  "next_timer demo_shards = 0"
  by (simp_all add: demo_shards_def gateway_state.defs)

theorem reassembly_never_delivers_witness: "SDUCh demo_shards = []"
  using reassembly_never_delivers [OF rtranclp.rtrancl_refl, of demo_shards]
  by (simp add: shard_initial_def)

section \<open>Acknowledgements\<close>

lemma read_pdu_Panic: "read_pdu pl = Panic \<longleftrightarrow> scap pl < 2"
proof (cases "scap pl < 2")
  case True
  then show ?thesis by (simp add: read_pdu_def ssub_def)
next
  case False
  then obtain head where h: "ssub pl 0 2 = Done head" "slen head = 2"
    using ssub_Done_len by (auto simp: ssub_def slen_def)
  obtain two where w: "be16_get (vis head) = Done two"
    using h(2) be16_get_Done [of "vis head"] by (auto simp: slen_def)
  have "ssub pl 2 4 \<noteq> Panic" if "4 \<le> slen pl"
    using order_trans [OF that slen_le_scap] by (simp add: slice_simps)
  moreover have "le16_get (vis sz) \<noteq> Panic" if "ssub pl 2 4 = Done sz" for sz
    using ssub_Done_len [OF that] by (simp add: le16_get_Panic_iff slen_def)
  moreover have "ssub pl 4 (4 + n) \<noteq> Panic" if "4 + n \<le> slen pl" for n
    using order_trans [OF that slen_le_scap] by (simp add: slice_simps)
  ultimately show ?thesis using False h w
    by (auto simp: read_pdu_def outcome_simps Let_def not_less)
qed

lemma read_pdu_not_Blocked [simp]: "read_pdu pl \<noteq> Blocked"
  by (auto simp: read_pdu_def outcome_simps Let_def split: if_splits)

lemma deliver_frame [simp]:
  "published (deliver k s p d st) = published st" "clock (deliver k s p d st) = clock st"
  "SDUCh (deliver k s p d st) = SDUCh st"
  by (simp_all add: deliver_def start_cache_def put_cache_def drop_cache_def stop_timer_def split: option.splits)

text \<open>C22: every fragment is answered by exactly one acknowledgement and never blocks
  the parser; the only content that makes the service panic is one of less than two bytes.
  On the wire the acknowledgement does not have the layout of the other frames: the sensor ID
  is sent as its twelve hexadecimal characters, a byte with the parameter count precedes the
  head, and the checksum covers the two acknowledgement bytes alone, low byte first.\<close>

theorem fragment_acknowledged:
  assumes "FragInd fr \<noteq> 0" "shard_inv st"
  shows "(ProcessFrame fr st = Panic \<longleftrightarrow> scap (Payload fr) < 2) \<and> ProcessFrame fr st \<noteq> Blocked \<and>
    (\<forall>st'. ProcessFrame fr st = Done st' \<longrightarrow>
       (\<exists>s ok p. published st' =
          published st @ [downlink (Frame_Bytes (ack_frame (SensorID fr) s ok p)) (clock st)])) \<and>
    (\<forall>k s ok p. Frame_Bytes (ack_frame k s ok p) =
       bytes_of_string k @ [0x01, 0x16] @ be16_put (ack_word s ok p) @
       le16_put (CRC16 (be16_put (ack_word s ok p))))"
proof (intro conjI allI impI)
  note eq = ProcessFrame_fragment [OF assms(1) shard_inv_unfinished [OF assms(2)]]
  show "ProcessFrame fr st = Panic \<longleftrightarrow> scap (Payload fr) < 2" "ProcessFrame fr st \<noteq> Blocked"
    by (simp_all add: eq outcome_simps read_pdu_Panic)
  show "\<exists>s ok p. published st' =
      published st @ [downlink (Frame_Bytes (ack_frame (SensorID fr) s ok p)) (clock st)]"
    if fin: "ProcessFrame fr st = Done st'" for st'
  proof -
    obtain pdu where "read_pdu (Payload fr) = Done pdu"
      using fin by (auto simp: eq outcome_simps)
    then show ?thesis using fin
      by (cases pdu) (auto simp: eq sendAck_publishes, blast+)
  qed
  show "Frame_Bytes (ack_frame k s ok p) =
       bytes_of_string k @ [0x01, 0x16] @ be16_put (ack_word s ok p) @
       le16_put (CRC16 (be16_put (ack_word s ok p)))" for k s ok p
    by (simp add: Frame_Bytes_def ack_frame_def le16_put_def Let_def)
qed

definition demo_fragment :: "bytes \<Rightarrow> Frame" where
  "demo_fragment content = \<lparr>SensorID = ''238A08262319'', DataLen = 1, FragInd = 1, PacketType = 0,
     Payload = mk_slice content, Check = 0\<rparr>"

lemma demo_fragment_simps [simp]:
  "FragInd (demo_fragment c) = 1" "SensorID (demo_fragment c) = ''238A08262319''"
  "Payload (demo_fragment c) = mk_slice c"
  by (simp_all add: demo_fragment_def)

theorem fragment_acknowledged_witness: "ProcessFrame (demo_fragment [4]) demo_shards = Panic"
  using fragment_acknowledged [of "demo_fragment [4]" demo_shards]
  by (simp add: shard_inv_def)

text \<open>C38: when the timer of a transfer has already fired and waits for the lock, a
  fragment with another sequence number still starts a new transfer, but the waiting callback
  then deletes the new cache instead of its own: the fragment that was just acknowledged is
  lost.\<close>

theorem stale_timeout_drops_new_transfer:
  assumes "shard_inv st" "FragInd fr \<noteq> 0" "read_pdu (Payload fr) = Done (Fragment s p d)"
    and "mget (sduCaches st) (SensorID fr) = Some c" "sc_SSEQ c \<noteq> s"
    and "tm \<in> set (firing st)" "tm_sensorKey tm = SensorID fr"
  shows "\<exists>st' c'. ProcessFrame fr st = Done st' \<and> mget (sduCaches st') (SensorID fr) = Some c' \<and>
    sc_SSEQ c' = s \<and> sc_buffer c' = d \<and> tm \<in> set (firing st') \<and> shard_step st' (run_timeout tm st') \<and>
    mget (sduCaches (run_timeout tm st')) (SensorID fr) = None"
proof -
  let ?st' = "sendAck (SensorID fr) s True p (deliver (SensorID fr) s p d st)"
  have "ProcessFrame fr st = Done ?st'"
    using ProcessFrame_fragment [OF assms(2) shard_inv_unfinished [OF assms(1)]] assms(3) by simp
  moreover have firing: "tm \<in> set (firing ?st')"
    using assms(4-6) by (simp add: sendAck_publishes deliver_def start_cache_def put_cache_def
        drop_cache_def stop_timer_def)
  moreover have "\<exists>c'. mget (sduCaches ?st') (SensorID fr) = Some c' \<and> sc_SSEQ c' = s \<and> sc_buffer c' = d"
    using assms(4,5) by (simp add: sendAck_publishes deliver_def start_cache_def put_cache_def mget_put)
  moreover have "mget (sduCaches (run_timeout tm ?st')) (SensorID fr) = None"
    using assms(7) by (simp add: run_timeout_def sendAck_publishes drop_cache_def mget_del)
  moreover have "shard_step ?st' (run_timeout tm ?st')"
    using firing by (rule shard_step.timeout)
  ultimately show ?thesis by blast
qed

definition demo_transfer :: shard_state where
  "demo_transfer = (start_cache ''238A08262319'' 2 0 [7] demo_shards)
     \<lparr>armed := [], firing := [\<lparr>tm_sensorKey = ''238A08262319'', tm_SSEQ = 2, tm_PSEQ = 0\<rparr>]\<rparr>"

lemma demo_transfer_inv: "shard_inv demo_transfer"
  by (simp add: demo_transfer_def start_cache_def put_cache_def shard_inv_def has_timeout_def cache_ok_def)

lemma demo_pdu: "read_pdu (mk_slice [4, 0, 1, 0, 9]) = Done (Fragment 1 0 [9])"
  by (simp add: read_pdu_def ssub_def Let_def)

theorem stale_timeout_drops_new_transfer_witness:
  "\<exists>st' c'. ProcessFrame (demo_fragment [4, 0, 1, 0, 9]) demo_transfer = Done st' \<and>
     mget (sduCaches st') ''238A08262319'' = Some c' \<and> sc_SSEQ c' = 1 \<and>
     mget (sduCaches (run_timeout (hd (firing demo_transfer)) st')) ''238A08262319'' = None"
proof -
  let ?c = "\<lparr>sc_SSEQ = 2, sc_expected = 1, sc_finalPSEQ = 0, sc_buffer = [7], sc_outOfOrder = [], sc_timer = 0\<rparr>"
  have "mget (sduCaches demo_transfer) ''238A08262319'' = Some ?c"
    "firing demo_transfer = [\<lparr>tm_sensorKey = ''238A08262319'', tm_SSEQ = 2, tm_PSEQ = 0\<rparr>]"
    by (simp_all add: demo_transfer_def start_cache_def put_cache_def)
  then show ?thesis
    using stale_timeout_drops_new_transfer [OF demo_transfer_inv, of "demo_fragment [4, 0, 1, 0, 9]" 1 0 "[9]" ?c
        "hd (firing demo_transfer)"] demo_pdu
    by auto
qed

section \<open>The order of fragments does not matter\<close>

text \<open>
  What a cache knows about a transfer whose fragment \<open>p\<close> carries \<open>D p\<close>: it began with \<open>p0\<close>
  and has seen the fragments \<open>R\<close>.
\<close>

definition collected :: "(nat \<Rightarrow> bytes) \<Rightarrow> nat \<Rightarrow> nat set \<Rightarrow> SDUCache \<Rightarrow> bool" where
  "collected D p0 R c \<longleftrightarrow>
     (let e = unat (sc_expected c) in
      p0 < e \<and> {p0..<e} \<subseteq> R \<and> sc_buffer c = concat (map D [p0..<e]) \<and>
      (\<forall>k. mget (sc_outOfOrder c) k = (if e \<le> unat k \<and> unat k \<in> R then Some (D (unat k)) else None)))"

lemma merge_ready_collected:
  assumes "collected D p0 R c" "R \<subseteq> {..<128}"
  shows "collected D p0 R (merge_ready c) \<and> unat (sc_expected (merge_ready c)) \<notin> R"
  using assms
proof (induction c rule: merge_ready.induct)
  case (1 c)
  let ?e = "sc_expected c"
  show ?case
  proof (cases "mget (sc_outOfOrder c) ?e")
    case None
    then have "unat ?e \<notin> R" using 1(2) by (auto simp: collected_def Let_def split: if_splits)
    then show ?thesis using None 1(2) by (subst (1 2) merge_ready.simps) simp
  next
    case (Some d)
    then have d: "unat ?e \<in> R" "d = D (unat ?e)"
      using 1(2) by (auto simp: collected_def Let_def split: if_splits)
    then have e: "unat (?e + 1) = Suc (unat ?e)"
      using 1(3) by (intro byte_suc) (auto simp: word_less_nat_alt)
    have k: "Suc (unat ?e) \<le> unat k \<longleftrightarrow> unat ?e \<le> unat k \<and> k \<noteq> ?e" for k
      by (auto simp: word_unat_eq_iff)
    have "collected D p0 R (c\<lparr>sc_outOfOrder := mdel ?e (sc_outOfOrder c),
            sc_buffer := sc_buffer c @ d, sc_expected := ?e + 1\<rparr>)"
      using 1(2) d by (auto simp: collected_def Let_def e k mget_del atLeastLessThanSuc)
    then show ?thesis
      using Some 1(1) [OF Some] 1(3) by (subst (1 2) merge_ready.simps) simp
  qed
qed

lemma collect_collected:
  assumes "collected D p0 R c" "unat (sc_expected c) \<notin> R" "unat p < 128" "R \<subseteq> {..<128}"
  shows "collected D p0 (insert (unat p) R) (collect p (D (unat p)) c) \<and>
    unat (sc_expected (collect p (D (unat p)) c)) \<notin> insert (unat p) R"
proof -
  let ?e = "sc_expected c"
  consider "p < ?e" | "?e < p" | "p = ?e" by fastforce
  then show ?thesis
  proof cases
    case 1
    then show ?thesis using assms(1,2)
      by (auto simp: collect_def collected_def Let_def word_less_nat_alt)
  next
    case 2
    then have lt: "\<not> p < ?e" "unat ?e < unat p" by (auto simp: word_less_nat_alt)
    have "(if k = p then Some (D (unat p)) else mget (sc_outOfOrder c) k) =
        (if unat ?e \<le> unat k \<and> unat k \<in> insert (unat p) R then Some (D (unat k)) else None)" for k
      using assms(1) lt by (cases "k = p") (auto simp: collected_def Let_def word_unat_eq_iff)
    then show ?thesis
      using assms(1,2) lt 2 by (auto simp: collect_def collected_def Let_def mget_put)
  next
    case 3
    then have e: "unat (?e + 1) = Suc (unat ?e)"
      using assms(3) by (intro byte_suc) (auto simp: word_less_nat_alt)
    have k: "Suc (unat ?e) \<le> unat k \<and> unat k \<in> insert (unat ?e) R \<longleftrightarrow> unat ?e \<le> unat k \<and> unat k \<in> R" for k
      using assms(2) by (auto simp: Suc_le_eq le_less)
    have "collected D p0 (insert (unat p) R)
        (c\<lparr>sc_buffer := sc_buffer c @ D (unat p), sc_expected := ?e + 1\<rparr>)"
      using assms(1) 3 k by (auto simp: collected_def Let_def e atLeastLessThanSuc)
    from merge_ready_collected [OF this] show ?thesis
      using 3 assms(3,4) by (simp add: collect_def)
  qed
qed

definition enc_pdu :: "byte \<Rightarrow> byte \<Rightarrow> bytes \<Rightarrow> bytes" where
  "enc_pdu s p d =
     be16_put (push_bit 10 (ucast s) OR push_bit 1 (ucast p)) @ le16_put (of_nat (length d)) @ d"

lemma pdu_head:
  assumes "s < 64" "p < 128"
  shows "ucast (drop_bit 10 (push_bit 10 (ucast s) OR push_bit 1 (ucast p) :: u16)) = (s :: byte)"
    and "ucast (drop_bit 1 (push_bit 10 (ucast s) OR push_bit 1 (ucast p) :: u16) AND 0x7F) = (p :: byte)"
proof -
  have b: "bit s n \<Longrightarrow> n < 6" "bit p n \<Longrightarrow> n < 7" for n
    using assms bit_imp_less [of s 6 n] bit_imp_less [of p 7 n] by (simp_all add: word_less_nat_alt)
  have one: "bit (push_bit 1 (ucast p) :: u16) n \<longleftrightarrow> 1 \<le> n \<and> n < 16 \<and> bit p (n - 1)" for n
    by (auto simp: bit_push_bit_iff bit_ucast_iff simp del: push_bit_Suc)
  have m: "(0x7F :: u16) = mask 7" by (simp add: mask_eq_exp_minus_1)
  show "ucast (drop_bit 10 (push_bit 10 (ucast s) OR push_bit 1 (ucast p) :: u16)) = (s :: byte)"
    by (rule bit_word_eqI) (auto simp: bit_ucast_iff bit_drop_bit_eq bit_or_iff one bit_push_bit_iff
        simp del: push_bit_Suc dest: b)
  show "ucast (drop_bit 1 (push_bit 10 (ucast s) OR push_bit 1 (ucast p) :: u16) AND 0x7F) = (p :: byte)"
    unfolding m by (rule bit_word_eqI) (auto simp: bit_ucast_iff bit_drop_bit_eq bit_or_iff one
        bit_push_bit_iff bit_and_iff bit_mask_iff simp del: push_bit_Suc dest: b)
qed

lemma read_pdu_enc:
  assumes "s < 64" "p < 128" "length d < 65536" "vis pl = enc_pdu s p d"
  shows "read_pdu pl = Done (Fragment s p d)"
proof -
  let ?two = "push_bit 10 (ucast s) OR push_bit 1 (ucast p) :: u16"
  have len: "slen pl = 4 + length d" using assms(4) by (simp add: enc_pdu_def slen_def)
  have u: "unat (of_nat (length d) :: u16) = length d"
    using assms(3) by (simp add: unsigned_of_nat take_bit_nat_eq_self)
  have "ssub pl 0 2 = Done \<lparr>vis = be16_put ?two, spare = drop 2 (sbacking pl)\<rparr>"
    "ssub pl 2 4 = Done \<lparr>vis = le16_put (of_nat (length d)), spare = drop 4 (sbacking pl)\<rparr>"
    "ssub pl 4 (4 + length d) = Done \<lparr>vis = d, spare = drop (4 + length d) (sbacking pl)\<rparr>"
    using assms(4) len by (subst ssub_inside; simp add: enc_pdu_def)+
  then show ?thesis
    using len u pdu_head [OF assms(1,2)] by (simp add: read_pdu_def Let_def)
qed

text \<open>A frame that carries fragment \<open>p\<close> of transfer \<open>s\<close> of the sensor \<open>k\<close>.\<close>

definition fragment_frame :: "string \<Rightarrow> byte \<Rightarrow> (nat \<Rightarrow> bytes) \<Rightarrow> Frame \<Rightarrow> byte \<Rightarrow> bool" where
  "fragment_frame k s D fr p \<longleftrightarrow> FragInd fr \<noteq> 0 \<and> SensorID fr = k \<and> s < 64 \<and> p < 128 \<and>
     length (D (unat p)) < 65536 \<and> vis (Payload fr) = enc_pdu s p (D (unat p))"

fun process_all :: "Frame list \<Rightarrow> 'a shard_state_scheme \<Rightarrow> 'a shard_state_scheme outcome" where
  "process_all [] st = Done st"
| "process_all (fr # frs) st = obind (ProcessFrame fr st) (\<lambda>st'. process_all frs st')"

definition transfer_at :: "string \<Rightarrow> byte \<Rightarrow> (nat \<Rightarrow> bytes) \<Rightarrow> nat \<Rightarrow> nat set \<Rightarrow>
    'a shard_state_scheme \<Rightarrow> bool" where
  "transfer_at k s D p0 R st \<longleftrightarrow> shard_inv st \<and> R \<subseteq> {..<128} \<and>
     (\<exists>c. mget (sduCaches st) k = Some c \<and> sc_SSEQ c = s \<and> collected D p0 R c \<and> unat (sc_expected c) \<notin> R)"

lemma fragment_frame_step:
  assumes "fragment_frame k s D fr p" "shard_inv st"
  shows "ProcessFrame fr st = Done (sendAck k s True p (deliver k s p (D (unat p)) st))"
    and "shard_inv (sendAck k s True p (deliver k s p (D (unat p)) st))"
  using ProcessFrame_fragment [of fr st] read_pdu_enc [of s p "D (unat p)" "Payload fr"] assms
    shard_inv_unfinished [OF assms(2)] deliver_inv [OF assms(2)]
  by (simp_all add: fragment_frame_def)

lemma first_transfer:
  assumes "fragment_frame k s D fr p" "shard_inv st" "mget (sduCaches st) k = None"
  shows "transfer_at k s D (unat p) {unat p} (sendAck k s True p (deliver k s p (D (unat p)) st))"
proof -
  have p: "p < 128" using assms(1) by (simp add: fragment_frame_def)
  then have "unat p < 128" by (simp add: word_less_nat_alt)
  then show ?thesis
    using fragment_frame_step(2) [OF assms(1,2)] assms(3) byte_suc [OF p]
    by (simp add: transfer_at_def sendAck_publishes deliver_def start_cache_def put_cache_def mget_put
        collected_def atLeastLessThanSuc)
qed

lemma next_transfer:
  assumes "fragment_frame k s D fr p" "transfer_at k s D p0 R st"
  shows "transfer_at k s D p0 (insert (unat p) R) (sendAck k s True p (deliver k s p (D (unat p)) st))"
proof -
  obtain c where c: "mget (sduCaches st) k = Some c" "sc_SSEQ c = s" "collected D p0 R c"
      "unat (sc_expected c) \<notin> R" and inv: "shard_inv st" and R: "R \<subseteq> {..<128}"
    using assms(2) by (auto simp: transfer_at_def)
  have p: "unat p < 128" using assms(1) by (simp add: fragment_frame_def word_less_nat_alt)
  have "mget (sduCaches (sendAck k s True p (deliver k s p (D (unat p)) st))) k =
      Some (collect p (D (unat p)) c)"
    using c(1,2) by (simp add: sendAck_publishes deliver_def put_cache_def mget_put collect_def)
  then show ?thesis
    using fragment_frame_step(2) [OF assms(1) inv] collect_collected [OF c(3,4) p R] c(2) R p
    by (simp add: transfer_at_def collect_def)
qed

lemma process_all_transfer:
  assumes "list_all2 (fragment_frame k s D) frs ps" "transfer_at k s D p0 R st"
  shows "\<exists>st'. process_all frs st = Done st' \<and> transfer_at k s D p0 (unat ` set ps \<union> R) st' \<and>
    length (published st') = length (published st) + length frs"
  using assms
proof (induction arbitrary: R st rule: list_all2_induct)
  case (Cons fr frs p ps)
  let ?st1 = "sendAck k s True p (deliver k s p (D (unat p)) st)"
  have "shard_inv st" using Cons(4) by (simp add: transfer_at_def)
  then have "ProcessFrame fr st = Done ?st1" by (rule fragment_frame_step(1) [OF Cons(1)])
  moreover have "length (published ?st1) = Suc (length (published st))"
    by (simp add: sendAck_publishes)
  ultimately show ?case
    using Cons(3) [OF next_transfer [OF Cons(1) Cons(4)]] by simp
qed simp



section \<open>Transfers that stop\<close>

text \<open>The timers alone: what can happen while no fragment arrives.\<close>

inductive timer_step :: "'a shard_state_scheme \<Rightarrow> 'a shard_state_scheme \<Rightarrow> bool" where
  "mget (armed st) i = Some tm \<Longrightarrow> timer_step st (timer_fires i tm st)"
| "tm \<in> set (firing st) \<Longrightarrow> timer_step st (run_timeout tm st)"

definition timer_work :: "'a shard_state_scheme \<Rightarrow> nat" where
  "timer_work st = 2 * length (armed st) + length (firing st)"

lemma timer_step_work: "timer_step st st' \<Longrightarrow> timer_work st' < timer_work st"
proof (induction rule: timer_step.induct)
  case (1 st i tm)
  then show ?case using length_mdel_less [of "armed st" i tm] by (simp add: timer_work_def timer_fires_def)
next
  case (2 tm st)
  then have "length (firing st) \<noteq> 0" by auto
  with 2 show ?case
    by (simp add: timer_work_def run_timeout_def sendAck_publishes drop_cache_def length_remove1)
qed

lemma timer_step_is_shard_step: "timer_step st st' \<Longrightarrow> shard_step st st'"
  by (induction rule: timer_step.induct) (auto intro: shard_step.intros)

lemma timer_steps_inv: "timer_step\<^sup>*\<^sup>* st st' \<Longrightarrow> shard_inv st \<Longrightarrow> shard_inv st'"
  by (induction rule: rtranclp_induct) (auto dest: timer_step_is_shard_step shard_step_inv)

lemma quiet_timers:
  assumes "shard_inv st" "\<nexists>st'. timer_step st st'"
  shows "mget (sduCaches st) k = None"
proof (rule ccontr)
  assume "mget (sduCaches st) k \<noteq> None"
  then obtain c where "mget (sduCaches st) k = Some c" by blast
  then have c: "has_timeout st k c" using assms(1) by (simp add: shard_inv_def)
  have "mget (armed st) i = None" for i using assms(2) timer_step.intros(1) by (metis not_None_eq)
  moreover have "firing st = []" using assms(2) timer_step.intros(2) by (metis list.set_intros(1) neq_Nil_conv)
  ultimately show False using c by (simp add: has_timeout_def)
qed

text \<open>C20: an abandoned transfer is given up. In every reachable state, if no
  further fragment arrives, every run of the timers is finite, in whatever order they fire
  and their callbacks run, and when no timer is left no sensor has a reassembly cache.\<close>

theorem caches_expire:
  fixes st :: "'a shard_state_scheme"
  assumes "shard_step\<^sup>*\<^sup>* st0 st" "shard_initial st0"
  shows "(\<nexists>run. run 0 = st \<and> (\<forall>i. timer_step (run i) (run (Suc i)))) \<and>
    (\<forall>st'. timer_step\<^sup>*\<^sup>* st st' \<and> (\<nexists>st''. timer_step st' st'') \<longrightarrow> (\<forall>k. mget (sduCaches st') k = None))"
proof (intro conjI allI impI notI)
  assume "\<exists>run. run 0 = st \<and> (\<forall>i. timer_step (run i) (run (Suc i)))"
  then obtain run :: "nat \<Rightarrow> 'a shard_state_scheme" where run: "\<And>i. timer_step (run i) (run (Suc i))"
    by blast
  have "wf (measure timer_work :: ('a shard_state_scheme \<times> 'a shard_state_scheme) set)" by simp
  then show False
    using timer_step_work [OF run] unfolding wf_iff_no_infinite_down_chain by auto
next
  fix st' k
  assume t: "timer_step\<^sup>*\<^sup>* st st' \<and> (\<nexists>st''. timer_step st' st'')"
  have "shard_inv st" using shard_reachable_inv [OF assms(1) shard_initial_inv [OF assms(2)]] .
  then show "mget (sduCaches st') k = None"
    using timer_steps_inv t by (intro quiet_timers) auto
qed

theorem caches_expire_witness:
  "\<exists>st. ProcessFrame (demo_fragment [4, 0, 1, 0, 9]) demo_shards = Done st \<and>
     mget (sduCaches st) ''238A08262319'' \<noteq> None \<and>
     (\<exists>st'. timer_step\<^sup>*\<^sup>* st st' \<and> mget (sduCaches st') ''238A08262319'' = None)"
proof -
  let ?fr = "demo_fragment [4, 0, 1, 0, 9]"
  have pdu: "fragment_frame ''238A08262319'' 1 (\<lambda>n. [9]) ?fr 0"
    by (simp add: fragment_frame_def enc_pdu_def be16_put_def le16_put_def)
  have inv: "shard_inv demo_shards" by (simp add: shard_inv_def)
  let ?st = "sendAck ''238A08262319'' 1 True 0 (deliver ''238A08262319'' 1 0 [9] demo_shards)"
  have p: "ProcessFrame ?fr demo_shards = Done ?st" using fragment_frame_step(1) [OF pdu inv] by simp
  have c: "mget (sduCaches ?st) ''238A08262319'' \<noteq> None"
    by (simp add: sendAck_publishes deliver_def start_cache_def put_cache_def)
  have "FragInd ?fr \<noteq> 0" using pdu by (simp add: fragment_frame_def)
  then have reach: "shard_step\<^sup>*\<^sup>* demo_shards ?st" using shard_step.fragment [OF _ p] by blast
  define tm where "tm = \<lparr>tm_sensorKey = ''238A08262319'', tm_SSEQ = 1, tm_PSEQ = (0 :: byte)\<rparr>"
  let ?st1 = "timer_fires 0 tm ?st" let ?st2 = "run_timeout tm ?st1"
  have a: "armed ?st = [(0, tm)]" "firing ?st = []"
    by (simp_all add: sendAck_publishes deliver_def start_cache_def put_cache_def tm_def)
  have "timer_step ?st ?st1" by (rule timer_step.intros(1)) (simp add: a)
  moreover have "timer_step ?st1 ?st2" by (rule timer_step.intros(2)) (simp add: timer_fires_def)
  ultimately have t: "timer_step\<^sup>*\<^sup>* ?st ?st2" by simp
  have "armed ?st2 = []" "firing ?st2 = []"
    by (simp_all add: run_timeout_def timer_fires_def sendAck_publishes drop_cache_def a [unfolded sendAck_publishes, simplified])
  then have "\<nexists>st''. timer_step ?st2 st''" by (auto elim: timer_step.cases)
  then have "mget (sduCaches ?st2) ''238A08262319'' = None"
    using caches_expire [OF reach] t by (simp add: shard_initial_def)
  with p c t show ?thesis by blast
qed

end
