(* ===== verification/FrameParser.thy ===== *)
theory FrameParser
  imports Sharding
begin

text \<open>
  The uplink parser (\<open>frameparser/parser.go\<close>): one frame from the raw channel to stored
  values, status answers, control responses, fragments and the report callback. \<open>cb\<close> is the
  callback, which may be absent; it acts on the state like the driver's
  \<open>AsyncReporting\<close> does. The time synchronisation frame of \<open>time_ctl.go\<close> that is sent
  through the relay is here as well.
\<close>

section \<open>Answers\<close>

definition SendDataStatus :: "string \<Rightarrow> byte \<Rightarrow> byte \<Rightarrow> byte \<Rightarrow>
    'a gateway_state_scheme \<Rightarrow> (response_error option \<times> 'a gateway_state_scheme)" where
  "SendDataStatus sensorKey packetType dataStatus dataLen st =
     (case hex_DecodeString ''238A0841D828'' of
        Inl e \<Rightarrow> (Some (EIDHex e), st)
      | Inr keyBytes \<Rightarrow>
          if length keyBytes \<noteq> 6 then (Some (EIDLength (length keyBytes)), st)
          else
            (let fragInd = 0;
                 header = (push_bit 4 dataLen AND 0xF0) OR (push_bit 3 fragInd AND 0x08) OR (packetType AND 0x07);
                 packet = keyBytes @ [header] @ [dataStatus];
                 crc = CRC16 packet;
                 packet' = packet @ [ucast (drop_bit 8 crc), ucast (crc AND 0xFF)]
             in (None, SendFrame sensorKey packet' st)))"

definition onDataReceived :: "string \<Rightarrow> 'a gateway_state_scheme \<Rightarrow> 'a gateway_state_scheme" where
  "onDataReceived deviceName st =
     SetDeviceValue deviceName ''lastDataTimestamp'' (VInt64 (of_int (clock st))) st"

definition RestCommandBuildFrame :: "string \<Rightarrow> bytes \<Rightarrow> byte \<Rightarrow> u32 \<Rightarrow>
    'a gateway_state_scheme \<Rightarrow> (build_error option \<times> 'a gateway_state_scheme)" where
  "RestCommandBuildFrame eidStr sensorID requestSetFlag timestamp st =
     (if requestSetFlag \<noteq> 0 \<and> requestSetFlag \<noteq> 1 then (Some (InvalidFlag requestSetFlag), st)
      else let buf = sensorID @ [push_bit 4 0 OR push_bit 3 0 OR (packetTypeControl AND 0x07)] @
                 [push_bit 1 (0x04 AND 0x7F) OR (requestSetFlag AND 0x01)] @ le32_put timestamp;
               crc = CRC16 buf
           in (None, SendFrame eidStr (buf @ be16_put crc) st))"

section \<open>The items of a business frame\<close>

definition parser_body :: "slice \<Rightarrow> string \<Rightarrow> nat \<Rightarrow> nat \<Rightarrow>
    gvalue gomap \<times> 'a config_state_scheme \<Rightarrow> (gvalue gomap \<times> 'a config_state_scheme) round outcome" where
  "parser_body frame deviceName parsed idx s =
     (let (resourceValues, st) = s in
      if int idx + 2 > int (slen frame) - 2 then Done (Break s)
      else obind (read_head le16_get frame idx) (\<lambda>(paramType, dataLen, j).
        obind (ssub frame j (j + dataLen)) (\<lambda>valBytes.
        obind (parse_value paramType (vis valBytes) st) (\<lambda>(r, st').
          Done (Next (parsed + 1) (j + dataLen)
            (case r of
               None \<Rightarrow> (resourceValues, st')
             | Some (name, val) \<Rightarrow>
                 if val \<noteq> VNil
                 then (mput name val resourceValues, SetDeviceValue deviceName name val st')
                 else (resourceValues, st')))))))"

lemma parser_body_counts: "parser_body frame d parsed idx s = Done (Next p i s') \<Longrightarrow> p = parsed + 1"
  by (auto simp: parser_body_def outcome_simps Let_def split: if_splits prod.splits)

function parser_loop :: "slice \<Rightarrow> string \<Rightarrow> nat \<Rightarrow> nat \<Rightarrow> nat \<Rightarrow>
    gvalue gomap \<times> 'a config_state_scheme \<Rightarrow> (gvalue gomap \<times> 'a config_state_scheme) outcome" where
  "parser_loop frame deviceName dataCount parsed idx s =
     (if parsed < dataCount
      then obind (parser_body frame deviceName parsed idx s) (\<lambda>r.
        case r of Break s' \<Rightarrow> Done s' | Next p i s' \<Rightarrow> parser_loop frame deviceName dataCount p i s')
      else Done s)"
  by pat_completeness auto
termination
  by (relation "measure (\<lambda>(frame, d, n, parsed, idx, s). n - parsed)")
    (auto dest: parser_body_counts)

declare parser_loop.simps [simp del]

section \<open>One frame\<close>

type_synonym 's callback = "string \<Rightarrow> string \<Rightarrow> gvalue gomap \<Rightarrow> 's \<Rightarrow> 's outcome"

definition parse_items :: "'a shard_state_scheme callback option \<Rightarrow> slice \<Rightarrow> string \<Rightarrow> nat \<Rightarrow>
    'a shard_state_scheme \<Rightarrow> 'a shard_state_scheme outcome" where
  "parse_items cb frame deviceName dataCount st =
     obind (parser_loop frame deviceName dataCount 0 7 ([], st)) (\<lambda>(resourceValues, st').
       case cb of
         None \<Rightarrow> Done st'
       | Some f \<Rightarrow>
           if length resourceValues > 0 then f deviceName ''AsyncReporting'' resourceValues st'
           else Done st')"

definition control_response :: "'a shard_state_scheme callback option \<Rightarrow> Frame \<Rightarrow> string \<Rightarrow>
    'a shard_state_scheme \<Rightarrow> 'a shard_state_scheme outcome" where
  "control_response cb frame_ctl deviceName st =
     obind (handleFrameCtl frame_ctl st) (\<lambda>st'.
       if ResourcesFlag st' then
         (case cb of
            None \<Rightarrow> Panic
          | Some f \<Rightarrow>
              obind (f deviceName ''AsyncReporting'' (Resources1 st') st') (\<lambda>st''.
                Done (st''\<lparr>ResourcesFlag := False\<rparr>)))
       else Done st')"

definition crc_failed :: "string \<Rightarrow> byte \<Rightarrow> byte \<Rightarrow> byte \<Rightarrow>
    'a shard_state_scheme \<Rightarrow> 'a shard_state_scheme" where
  "crc_failed sensorID fragInd packetType dataCount st =
     (if fragInd = 0 then
        if packetType = 0 then snd (SendDataStatus sensorID 0b001 0x00 dataCount st)
        else if packetType = 2 then snd (SendDataStatus sensorID 0b011 0x00 dataCount st)
        else st
      else st)"

text \<open>What follows a matching checksum.\<close>

definition dispatch_frame :: "'a shard_state_scheme callback option \<Rightarrow> slice \<Rightarrow> Frame \<Rightarrow> string \<Rightarrow>
    'a shard_state_scheme \<Rightarrow> 'a shard_state_scheme outcome" where
  "dispatch_frame cb frame frame_ctl deviceName st =
     (let sensorID = SensorID frame_ctl;
          dataCount = DataLen frame_ctl;
          packetType = PacketType frame_ctl;
          items = parse_items cb frame deviceName (unat dataCount) in
      if FragInd frame_ctl = 0 then
        if packetType = 0 then items (snd (SendDataStatus sensorID 0b001 0xFF dataCount st))
        else if packetType = 2 then items (snd (SendDataStatus sensorID 0b011 0xFF dataCount st))
        else if packetType = 4 \<or> packetType = 5 then control_response cb frame_ctl deviceName st
        else Done st
      else obind (ProcessFrame frame_ctl st) items)"

definition parse_frame :: "'a shard_state_scheme callback option \<Rightarrow> slice \<Rightarrow>
    'a shard_state_scheme \<Rightarrow> 'a shard_state_scheme outcome" where
  "parse_frame cb frame st =
     (let n = slen frame in
      if n < 9 then Done st
      else
        obind (ssub frame 0 (n - 2)) (\<lambda>payload.
        obind (ssub frame (n - 2) n) (\<lambda>crc_bytes.
        obind (be16_get (vis crc_bytes)) (\<lambda>recvCRC.
        obind (ssub frame 0 6) (\<lambda>sidBytes.
          let sensorID = ToUpper (hex_EncodeToString (vis sidBytes)) in
          case LookupDeviceName sensorID st of
            None \<Rightarrow> Done st
          | Some deviceName \<Rightarrow>
              let st1 = onDataReceived deviceName st in
              obind (sidx frame 6) (\<lambda>head.
                let dataCount = drop_bit 4 head;
                    fragInd = drop_bit 3 head AND 0x1;
                    packetType = head AND 0x07 in
                obind (ssub frame 7 (n - 2)) (\<lambda>content.
                  let body = mk_slice (go_copy (replicate (n - 2 - 7) 0) (vis content)) in
                  if CRC16 (vis payload) \<noteq> recvCRC
                  then Done (crc_failed sensorID fragInd packetType dataCount st1)
                  else dispatch_frame cb frame
                    \<lparr>SensorID = sensorID, DataLen = dataCount, FragInd = fragInd,
                     PacketType = packetType, Payload = body, Check = recvCRC\<rparr> deviceName st1)))))))"

text \<open>The goroutine of \<open>StartParser\<close>: the frames of the raw channel, one after the other.\<close>

fun StartParser :: "'a shard_state_scheme callback option \<Rightarrow> slice list \<Rightarrow>
    'a shard_state_scheme \<Rightarrow> 'a shard_state_scheme outcome" where
  "StartParser cb [] st = Done st"
| "StartParser cb (frame # frames) st =
     obind (parse_frame cb frame st) (\<lambda>st'. StartParser cb frames st')"

section \<open>The parts of a frame\<close>

interpretation parser_items: item_loop "parser_body frame d" "parser_loop frame d n" n for frame d n
  by unfold_locales (rule parser_loop.simps)

definition frame_of :: "bytes \<Rightarrow> byte \<Rightarrow> bytes \<Rightarrow> u16 \<Rightarrow> Frame" where
  "frame_of sid head content crc =
     \<lparr>SensorID = hex_upper sid, DataLen = drop_bit 4 head, FragInd = drop_bit 3 head AND 0x1,
      PacketType = head AND 0x07, Payload = mk_slice content, Check = crc\<rparr>"

lemma go_copy_all [simp]: "length dst = length src \<Longrightarrow> go_copy dst src = src"
  by (simp add: go_copy_def)

lemma parse_frame_parts:
  assumes "vis frame = sid @ head # content @ be16_put crc" "length sid = 6"
  shows "parse_frame cb frame st =
    (case LookupDeviceName (hex_upper sid) st of
       None \<Rightarrow> Done st
     | Some d \<Rightarrow>
         if CRC16 (sid @ head # content) \<noteq> crc
         then Done (crc_failed (hex_upper sid) (drop_bit 3 head AND 0x1) (head AND 0x07) (drop_bit 4 head)
           (onDataReceived d st))
         else dispatch_frame cb frame (frame_of sid head content crc) d (onDataReceived d st))"
proof -
  have n: "slen frame = 9 + length content" using assms by (simp add: slen_def)
  have "ssub frame 0 (slen frame - 2) = Done \<lparr>vis = sid @ head # content, spare = drop (slen frame - 2) (sbacking frame)\<rparr>"
    "ssub frame (slen frame - 2) (slen frame) = Done \<lparr>vis = be16_put crc, spare = drop (slen frame) (sbacking frame)\<rparr>"
    "ssub frame 0 6 = Done \<lparr>vis = sid, spare = drop 6 (sbacking frame)\<rparr>"
    "ssub frame 7 (slen frame - 2) = Done \<lparr>vis = content, spare = drop (slen frame - 2) (sbacking frame)\<rparr>"
    using assms n by (subst ssub_inside; simp)+
  moreover have "sidx frame 6 = Done head"
    using assms n by (simp add: sidx_def nth_append)
  ultimately show ?thesis
    using n by (auto simp: parse_frame_def frame_of_def Let_def split: option.splits)
qed

definition status_frame :: "byte \<Rightarrow> byte \<Rightarrow> byte \<Rightarrow> bytes" where
  "status_frame n packetType status =
     with_crc ([0x23, 0x8A, 0x08, 0x41, 0xD8, 0x28, head_byte n 0 packetType, status])"

lemma status_header:
  "(push_bit 4 n AND 0xF0) OR (push_bit 3 0 AND 0x08) OR (p AND 0x07) = head_byte n 0 p"
proof -
  have "(0xF0 :: byte) = push_bit 4 0x0F" by simp
  then have "push_bit 4 n AND 0xF0 = push_bit 4 (n AND 0x0F :: byte)" by (simp only: push_bit_and)
  then show ?thesis by (simp add: head_byte_def)
qed

lemma low_byte: "ucast (w AND 0xFF :: u16) = (ucast w :: byte)"
proof -
  have "(w AND 0xFF) = take_bit 8 w" by (simp add: take_bit_eq_mask mask_eq_exp_minus_1)
  then show ?thesis by (simp, intro bit_word_eqI) (simp add: bit_simps)
qed

lemma SendDataStatus_sends:
  "snd (SendDataStatus k p status n st) =
     st\<lparr>published := published st @ [downlink (status_frame n p status) (clock st)]\<rparr>"
proof -
  have "with_crc ([0x23, 0x8A, 0x08, 0x41, 0xD8, 0x28] @ [head_byte n 0 p] @ [status]) = status_frame n p status"
    by (simp add: status_frame_def)
  then have "snd (SendDataStatus k p status n st) = SendFrame k (status_frame n p status) st"
    by (simp add: SendDataStatus_def eid_constant status_header [simplified] low_byte with_crc_def be16_put_def Let_def
        del: hex_DecodeString.simps)
  moreover have "status_frame n p status \<noteq> []" by (simp add: status_frame_def with_crc_def)
  ultimately show ?thesis by (simp add: SendFrame_publishes)
qed

lemma value_update_frame [simp]:
  "published (SetDeviceValue d n v g) = published g" "clock (SetDeviceValue d n v g) = clock g"
  "SinkRawDataCh (SetDeviceValue d n v g) = SinkRawDataCh g"
  "sduCaches (SetDeviceValue d n v s) = sduCaches s" "SDUCh (SetDeviceValue d n v s) = SDUCh s"
  "armed (SetDeviceValue d n v s) = armed s" "firing (SetDeviceValue d n v s) = firing s"
  "next_timer (SetDeviceValue d n v s) = next_timer s"
  "shard_state.more (SetDeviceValue d n v s) = shard_state.more s"
  by (simp_all add: SetDeviceValue_def Let_def)

lemma topo_update_frame [simp]:
  "published (note_topo v g) = published g" "clock (note_topo v g) = clock g"
  "SinkRawDataCh (note_topo v g) = SinkRawDataCh g"
  "sduCaches (note_topo v s) = sduCaches s" "SDUCh (note_topo v s) = SDUCh s"
  "armed (note_topo v s) = armed s" "firing (note_topo v s) = firing s"
  "next_timer (note_topo v s) = next_timer s"
  "shard_state.more (note_topo v s) = shard_state.more s"
  by (simp_all add: note_topo_def split: gvalue.splits)

lemma item_update_frame [simp]:
  "published (write_item d it g) = published g" "clock (write_item d it g) = clock g"
  "SinkRawDataCh (write_item d it g) = SinkRawDataCh g"
  "sduCaches (write_item d it s) = sduCaches s" "SDUCh (write_item d it s) = SDUCh s"
  "armed (write_item d it s) = armed s" "firing (write_item d it s) = firing s"
  "next_timer (write_item d it s) = next_timer s"
  "shard_state.more (write_item d it s) = shard_state.more s"
  by (simp_all add: write_item_def split: option.splits)

lemma items_update_frame [simp]:
  "published (write_items d its g) = published g" "clock (write_items d its g) = clock g"
  "SinkRawDataCh (write_items d its g) = SinkRawDataCh g"
  "sduCaches (write_items d its s) = sduCaches s" "SDUCh (write_items d its s) = SDUCh s"
  "armed (write_items d its s) = armed s" "firing (write_items d its s) = firing s"
  "next_timer (write_items d its s) = next_timer s"
  "shard_state.more (write_items d its s) = shard_state.more s"
  by (induction its arbitrary: g s) simp_all

section \<open>The items of a frame\<close>

definition parser_act :: "string \<Rightarrow> wire_item \<Rightarrow> gvalue gomap \<times> 'a config_state_scheme \<Rightarrow>
    gvalue gomap \<times> 'a config_state_scheme" where
  "parser_act d it s = (fold (\<lambda>(n, v). mput n v) (decoded [it]) (fst s), write_item d it (snd s))"

lemma parser_acts:
  "fold (parser_act d) its (rv, st) = (fold (\<lambda>(n, v). mput n v) (decoded its) rv, write_items d its st)"
  by (induction its arbitrary: rv st) (auto simp: parser_act_def split: option.splits)

lemma parser_body_item:
  assumes "list_all wf_item its" "vis frame = pre @ enc_items le16_put its @ tail" "length pre = 7"
    and "2 \<le> length tail" "k < length its"
  shows "parser_body frame d parsed (7 + length (concat (map (enc_item le16_put) (take k its)))) s =
    Done (Next (parsed + 1) (7 + length (concat (map (enc_item le16_put) (take (Suc k) its))))
      (parser_act d (its ! k) s))"
proof -
  let ?i = "7 + length (concat (map (enc_item le16_put) (take k its)))"
  let ?i' = "7 + length (concat (map (enc_item le16_put) (take (Suc k) its)))"
  obtain j sp where item:
    "read_head le16_get frame ?i = Done (wi_type (its ! k), length (wi_data (its ! k)), j)"
    "ssub frame j (j + length (wi_data (its ! k))) = Done \<lparr>vis = wi_data (its ! k), spare = sp\<rparr>"
    "j + length (wi_data (its ! k)) = ?i'"
    using le_items.item_at [OF assms(1,2,5)] assms(3) by auto
  have "enc_items le16_put its = concat (map (enc_item le16_put) (take (Suc k) its)) @
      concat (map (enc_item le16_put) (drop (Suc k) its))"
    unfolding enc_items_def by (metis append_take_drop_id concat_append map_append)
  then have "?i' + 2 \<le> slen frame" using assms(2-4) by (simp add: slen_def)
  moreover have "?i + 2 \<le> ?i'" using read_head_advances [OF item(1)] item(3) by simp
  ultimately show ?thesis
    using item
    by (cases s) (auto simp: parser_body_def parse_value_total parser_act_def write_item_def Let_def
        decode_not_nil split: option.splits)
qed

lemma parser_loop_items:
  assumes "list_all wf_item its" "vis frame = pre @ enc_items le16_put its @ tail" "length pre = 7"
    and "2 \<le> length tail" "m \<le> length its" "m \<le> n"
  shows "parser_loop frame d n 0 7 s =
    parser_loop frame d n m (7 + length (concat (map (enc_item le16_put) (take m its)))) (fold (parser_act d) (take m its) s)"
  using assms(5,6)
proof (induction m)
  case (Suc m)
  let ?s = "fold (parser_act d) (take m its) s"
  have "parser_body frame d m (7 + length (concat (map (enc_item le16_put) (take m its)))) ?s =
    Done (Next (m + 1) (7 + length (concat (map (enc_item le16_put) (take (Suc m) its)))) (parser_act d (its ! m) ?s))"
    using Suc.prems by (intro parser_body_item [OF assms(1-4)]) simp
  moreover have "fold (parser_act d) (take (Suc m) its) s = parser_act d (its ! m) ?s"
    using Suc.prems(1) by (simp add: take_Suc_conv_app_nth)
  ultimately show ?case
    using Suc parser_items.loop_next [of m n frame d] by simp
qed simp

lemma parser_loop_all:
  assumes "list_all wf_item its" "vis frame = pre @ enc_items le16_put its @ tail" "length pre = 7"
    and "length tail = 2"
  shows "parser_loop frame d n 0 7 s = Done (fold (parser_act d) (take n its) s)"
proof (cases "n \<le> length its")
  case True
  then show ?thesis
    using parser_loop_items [OF assms(1-3), of n n d s] assms(4) by (simp add: parser_items.loop_done)
next
  case False
  let ?m = "length its" and ?s = "fold (parser_act d) its s"
  have "parser_body frame d ?m (7 + length (concat (map (enc_item le16_put) its))) ?s = Done (Break ?s)"
    using assms(2-4) by (simp add: parser_body_def slen_def enc_items_def split: prod.splits)
  then show ?thesis
    using parser_loop_items [OF assms(1-3), of ?m n d s] assms(4) False
    by (simp add: parser_items.loop_break)
qed

section \<open>Properties\<close>

text \<open>
  The effect of a business frame of device \<open>d\<close>: the answer, the receive time and the items
  that the head counts. \<open>rv\<close> is what the callback gets.
\<close>

definition business_effect :: "string \<Rightarrow> wire_item list \<Rightarrow> bytes \<Rightarrow> 'a shard_state_scheme \<Rightarrow>
    gvalue gomap \<Rightarrow> 'a shard_state_scheme \<Rightarrow> bool" where
  "business_effect d its answer st rv st' \<longleftrightarrow>
     published st' = published st @ [downlink answer (clock st)] \<and>
     (\<forall>r. mget rv r = last_value (decoded its) r) \<and>
     (\<forall>d' r. GetDeviceValue d' r st' =
        (if d' \<noteq> d then GetDeviceValue d' r st
         else case last_value (decoded its) r of
             Some v \<Rightarrow> Some v
           | None \<Rightarrow> if r = ''lastDataTimestamp'' then Some (VInt64 (of_int (clock st)))
                     else GetDeviceValue d r st)) \<and>
     wf_map rv \<and> SensorIDToDeviceName st' = SensorIDToDeviceName st \<and> sduCaches st' = sduCaches st \<and>
     WriteChan st' = WriteChan st \<and> SDUCh st' = SDUCh st \<and> clock st' = clock st \<and>
     SinkRawDataCh st' = SinkRawDataCh st \<and> shard_state.more st' = shard_state.more st"

lemma GetDeviceValue_published [simp]:
  "GetDeviceValue d r (st\<lparr>published := p\<rparr>) = GetDeviceValue d r st"
  by (simp add: GetDeviceValue_def)

lemma business_frame_effect:
  assumes "vis frame = sid @ head # enc_items le16_put its @ be16_put (CRC16 (sid @ head # enc_items le16_put its))"
    and "length sid = 6" "list_all wf_item its" "drop_bit 3 head AND 0x1 = 0"
    and "head AND 0x07 = pt" "pt \<in> {0, 2}" "LookupDeviceName (hex_upper sid) st = Some d"
  shows "\<exists>rv st'. business_effect d (take (unat (drop_bit 4 head)) its)
      (status_frame (drop_bit 4 head) (pt + 1) 0xFF) st rv st' \<and>
    (\<forall>cb. parse_frame cb frame st =
      (case cb of
         None \<Rightarrow> Done st'
       | Some f \<Rightarrow> if rv = [] then Done st' else f d ''AsyncReporting'' rv st'))"
proof -
  let ?n = "unat (drop_bit 4 head)" and ?st1 = "onDataReceived d st"
  let ?st2 = "snd (SendDataStatus (hex_upper sid) (pt + 1) 0xFF (drop_bit 4 head) ?st1)"
  let ?rv = "fold (\<lambda>(n, v). mput n v) (decoded (take ?n its)) []"
  let ?st' = "write_items d (take ?n its) ?st2"
  have v: "vis frame = (sid @ [head]) @ enc_items le16_put its @
      be16_put (CRC16 (sid @ head # enc_items le16_put its))" and pre: "length (sid @ [head]) = 7"
    using assms(1,2) by simp_all
  have "parse_frame cb frame st =
      dispatch_frame cb frame (frame_of sid head (enc_items le16_put its)
        (CRC16 (sid @ head # enc_items le16_put its))) d ?st1" for cb
    using parse_frame_parts [OF assms(1,2), of cb st] assms(7) by simp
  also have "\<dots> cb = parse_items cb frame d ?n ?st2" for cb
    using assms(4-6) by (auto simp: dispatch_frame_def frame_of_def Let_def)
  also have "\<dots> cb = (case cb of None \<Rightarrow> Done ?st'
      | Some f \<Rightarrow> if ?rv = [] then Done ?st' else f d ''AsyncReporting'' ?rv ?st')" for cb
    unfolding parse_items_def parser_loop_all [OF assms(3) v pre put_lengths(1)] parser_acts
    by (simp split: option.splits)
  finally have parse: "\<forall>cb. parse_frame cb frame st = (case cb of None \<Rightarrow> Done ?st'
      | Some f \<Rightarrow> if ?rv = [] then Done ?st' else f d ''AsyncReporting'' ?rv ?st')" by blast
  have "business_effect d (take ?n its) (status_frame (drop_bit 4 head) (pt + 1) 0xFF) st ?rv ?st'"
    by (auto simp: business_effect_def SendDataStatus_sends onDataReceived_def write_items_get
        fold_put_decoded SetDeviceValue_get intro!: gomap.wf_puts split: option.splits)
  with parse show ?thesis by blast
qed

text \<open>C8: a monitoring or alarm frame of a known sensor with a matching checksum and a
  content of well-formed items is answered with one success status, its receive time is
  noted, and the items the head counts, up to the end of the frame, are stored for the device
  of the sensor: each name gets the value of its last item and nothing else changes. The
  callback, if there is one and something was decoded, is called once with exactly these
  values.\<close>

theorem business_frame_stored:
  assumes "vis frame = sid @ head # enc_items le16_put its @ be16_put (CRC16 (sid @ head # enc_items le16_put its))"
    and "length sid = 6" "list_all wf_item its" "drop_bit 3 head AND 0x1 = 0"
    and "head AND 0x07 = pt" "pt \<in> {0, 2}" "LookupDeviceName (hex_upper sid) st = Some d"
  shows "\<exists>rv st'. business_effect d (take (unat (drop_bit 4 head)) its)
      (status_frame (drop_bit 4 head) (pt + 1) 0xFF) st rv st' \<and>
    (\<forall>cb. parse_frame cb frame st =
      (case cb of
         None \<Rightarrow> Done st'
       | Some f \<Rightarrow> if rv = [] then Done st' else f d ''AsyncReporting'' rv st'))"
  using assms by (rule business_frame_effect)

definition demo_uplink :: "byte \<Rightarrow> bytes \<Rightarrow> slice" where
  "demo_uplink head content = mk_slice (with_crc ([0x23, 0x8A, 0x08, 0x26, 0x23, 0x19] @ [head] @ content))"

lemma demo_device: "LookupDeviceName (hex_upper [0x23, 0x8A, 0x08, 0x26, 0x23, 0x19]) demo_shards = Some ''Data-Demo''"
  by (simp add: LookupDeviceName_def demo_shards_def demo_gateway_def gateway_state.defs config_state.defs
      initial_config_def hex_upper_def hex_upper_digits_def)

theorem business_frame_stored_witness:
  "\<exists>rv st'. parse_frame None (demo_uplink 0x10 (enc_items le16_put [\<lparr>wi_type = 1, wi_flag = 1, wi_data = [7]\<rparr>]))
      demo_shards = Done st' \<and>
    business_effect ''Data-Demo'' [\<lparr>wi_type = 1, wi_flag = 1, wi_data = [7]\<rparr>] (status_frame 1 1 0xFF)
      demo_shards rv st'"
proof -
  let ?its = "[\<lparr>wi_type = 1, wi_flag = 1, wi_data = [7]\<rparr>]" and ?sid = "[0x23, 0x8A, 0x08, 0x26, 0x23, 0x19]"
  obtain rv st' where "business_effect ''Data-Demo'' (take (unat (drop_bit 4 (0x10 :: byte))) ?its)
      (status_frame (drop_bit 4 0x10) (0 + 1) 0xFF) demo_shards rv st'"
    "parse_frame None (demo_uplink 0x10 (enc_items le16_put ?its)) demo_shards = Done st'"
    using business_frame_stored [where frame = "demo_uplink 0x10 (enc_items le16_put ?its)" and sid = ?sid
        and head = "0x10" and its = ?its and pt = 0 and st = demo_shards and d = "''Data-Demo''"] demo_device
    by (fastforce simp: demo_uplink_def with_crc_def wf_item_def)
  then show ?thesis by (auto simp: drop_bit_numeral_bit0)
qed

text \<open>C10: a frame that is too short or of an unknown sensor changes nothing at all. A
  frame of a known sensor whose checksum does not match is never parsed: of the values only
  the receive time is set, at most one failure status is sent, exactly for unfragmented
  monitoring and alarm frames, and the service neither panics nor blocks.\<close>

theorem bad_frame_stores_nothing:
  "(slen frame < 9 \<longrightarrow> parse_frame cb frame st = Done st) \<and>
   (\<forall>sid head content crc. vis frame = sid @ head # content @ be16_put crc \<and> length sid = 6 \<longrightarrow>
      (LookupDeviceName (hex_upper sid) st = None \<longrightarrow> parse_frame cb frame st = Done st) \<and>
      (\<forall>d. LookupDeviceName (hex_upper sid) st = Some d \<and> CRC16 (sid @ head # content) \<noteq> crc \<longrightarrow>
        parse_frame cb frame st =
          Done ((SetDeviceValue d ''lastDataTimestamp'' (VInt64 (of_int (clock st))) st)
            \<lparr>published := published st @
               (if drop_bit 3 head AND 0x1 = 0 \<and> head AND 0x07 \<in> {0, 2}
                then [downlink (status_frame (drop_bit 4 head) ((head AND 0x07) + 1) 0x00) (clock st)] else [])\<rparr>)))"
proof (intro conjI allI impI)
  show "parse_frame cb frame st = Done st" if "slen frame < 9"
    using that by (simp add: parse_frame_def)
next
  fix sid head content crc
  assume f: "vis frame = sid @ head # content @ be16_put crc \<and> length sid = 6"
  note eq = parse_frame_parts [OF conjunct1 [OF f] conjunct2 [OF f], of cb st]
  show "parse_frame cb frame st = Done st" if "LookupDeviceName (hex_upper sid) st = None"
    using eq that by simp
  show "parse_frame cb frame st =
      Done ((SetDeviceValue d ''lastDataTimestamp'' (VInt64 (of_int (clock st))) st)
        \<lparr>published := published st @
           (if drop_bit 3 head AND 0x1 = 0 \<and> head AND 0x07 \<in> {0, 2}
            then [downlink (status_frame (drop_bit 4 head) ((head AND 0x07) + 1) 0x00) (clock st)] else [])\<rparr>)"
    if "LookupDeviceName (hex_upper sid) st = Some d \<and> CRC16 (sid @ head # content) \<noteq> crc" for d
    using eq that
    by (auto simp: crc_failed_def SendDataStatus_sends onDataReceived_def)
qed

theorem bad_frame_stores_nothing_witness:
  "\<exists>st'. parse_frame None (mk_slice ([0x23, 0x8A, 0x08, 0x26, 0x23, 0x19] @ 0x10 # [] @
       be16_put (CRC16 [0x23, 0x8A, 0x08, 0x26, 0x23, 0x19, 0x10] + 1))) demo_shards = Done st' \<and>
     length (published st') = Suc (length (published demo_shards))"
  using bad_frame_stores_nothing [of "mk_slice ([0x23, 0x8A, 0x08, 0x26, 0x23, 0x19] @ 0x10 # [] @
       be16_put (CRC16 [0x23, 0x8A, 0x08, 0x26, 0x23, 0x19, 0x10] + 1))" None demo_shards,
       THEN conjunct2, rule_format, of "[0x23, 0x8A, 0x08, 0x26, 0x23, 0x19]" "0x10" "[]"
       "CRC16 [0x23, 0x8A, 0x08, 0x26, 0x23, 0x19, 0x10] + 1"] demo_device
  by (simp add: drop_bit_numeral_bit0)

lemma parser_body_break: "slen frame < i + 4 \<Longrightarrow> parser_body frame d p i s = Done (Break s)"
  by (cases s) (simp add: parser_body_def)

lemma parser_body_overrun:
  assumes "i + 4 \<le> slen frame" "case item_end frame i of None \<Rightarrow> True | Some e \<Rightarrow> scap frame < e"
  shows "parser_body frame d p i s = Panic"
proof (cases "read_head le16_get frame i")
  case (Done h)
  then show ?thesis using assms read_head_item_end [OF assms(1)]
    by (cases s; cases h) (auto simp: parser_body_def ssub_def)
next
  case Blocked
  then show ?thesis by (auto simp: read_head_def read_len_def outcome_simps split: if_splits)
qed (use assms(1) in \<open>cases s; simp add: parser_body_def\<close>)

lemma parser_body_next:
  assumes "i + 4 \<le> slen frame" "item_end frame i = Some e" "e \<le> scap frame"
  shows "\<exists>s'. parser_body frame d p i s = Done (Next (p + 1) e s')"
proof -
  obtain t n j where h: "read_head le16_get frame i = Done (t, n, j)" "e = j + n"
    using assms(2) unfolding read_head_item_end [OF assms(1)] by (auto split: outcome.splits)
  then show ?thesis using assms(1,3)
    by (cases s) (simp add: parser_body_def ssub_def parse_value_total)
qed

lemma parser_loop_fits:
  "if items_fit frame m i then \<exists>s'. parser_loop frame d (p + m) p i s = Done s'
   else parser_loop frame d (p + m) p i s = Panic"
proof (induction m arbitrary: p i s)
  case (Suc m)
  show ?case
  proof (cases "slen frame < i + 4")
    case True
    then show ?thesis by (simp add: parser_items.loop_break [OF _ parser_body_break])
  next
    case False
    then have i: "i + 4 \<le> slen frame" by simp
    show ?thesis
    proof (cases "case item_end frame i of None \<Rightarrow> True | Some e \<Rightarrow> scap frame < e")
      case True
      then show ?thesis
        using i parser_items.loop_panic [OF _ parser_body_overrun [OF i True], of p "p + Suc m" d s]
        by (auto split: option.splits)
    next
      case False
      then obtain e where e: "item_end frame i = Some e" "e \<le> scap frame" by (auto split: option.splits)
      from parser_body_next [OF i e] obtain s' where "parser_body frame d p i s = Done (Next (p + 1) e s')" by blast
      then show ?thesis
        using i e Suc [of e "p + 1" s'] parser_items.loop_next [of p "p + Suc m" frame d i s "p + 1" e s']
        by (auto split: if_splits)
    qed
  qed
qed (simp add: parser_items.loop_done)

text \<open>In particular a first item that is longer than the buffer.\<close>

theorem long_item_panics:
  assumes "vis frame = sid @ head # content @ be16_put (CRC16 (sid @ head # content))" "length sid = 6"
    and "LookupDeviceName (hex_upper sid) st = Some d"
    and "drop_bit 3 head AND 0x1 = 0" "head AND 0x07 \<in> {0, 2}" "0 < unat (drop_bit 4 head)"
    and "2 \<le> length content" "read_head le16_get frame 7 = Done (t, n, j)" "scap frame < j + n"
  shows "parse_frame cb frame st = Panic"
proof -
  have "parser_body frame d 0 7 s = Panic" for s :: "gvalue gomap \<times> 'a shard_state_scheme"
    using assms(1,2,7-9) by (simp add: parser_body_def slen_def ssub_def split: prod.splits)
  then have "parser_loop frame d (unat (drop_bit 4 head)) 0 7 s = Panic"
    for s :: "gvalue gomap \<times> 'a shard_state_scheme"
    using assms(6) by (intro parser_items.loop_panic)
  then have "parse_items cb frame d (unat (drop_bit 4 head)) s = Panic" for s
    by (simp add: parse_items_def)
  then show ?thesis
    using assms(3-5) by (auto simp: parse_frame_parts [OF assms(1,2)] dispatch_frame_def frame_of_def Let_def)
qed

text \<open>C36: the uplink parser does not check the length of an item against the frame. A valid
  monitoring or alarm frame of a known sensor makes the service panic exactly when one of the
  items its head counts, laid end to end from the eighth byte on and as long as a head fits
  before the checksum, reaches behind the capacity of the frame's buffer or is cut off within
  a three-byte length.\<close>

theorem business_frame_panics_iff:
  assumes "vis frame = sid @ head # content @ be16_put (CRC16 (sid @ head # content))" "length sid = 6"
    and "LookupDeviceName (hex_upper sid) st = Some d" "drop_bit 3 head AND 0x1 = 0" "head AND 0x07 \<in> {0, 2}"
    and "\<And>f d s vs st. cb = Some f \<Longrightarrow> f d s vs st \<noteq> Panic"
  shows "parse_frame cb frame st = Panic \<longleftrightarrow> \<not> items_fit frame (unat (drop_bit 4 head)) 7"
proof -
  have "parse_items cb frame d n s = Panic \<longleftrightarrow> \<not> items_fit frame n 7" for n s
    using parser_loop_fits [of frame n 7 d 0 "([], s)"] assms(6)
    by (auto simp: parse_items_def outcome_simps split: if_splits option.splits)
  then show ?thesis
    using assms(3-5) by (auto simp: parse_frame_parts [OF assms(1,2)] dispatch_frame_def frame_of_def Let_def)
qed

theorem business_frame_panics_iff_witness:
  "parse_frame None (demo_uplink 0x10 [5, 0, 200]) demo_shards = Panic \<and>
   parse_frame None (demo_uplink 0x10 [5, 0, 1]) demo_shards \<noteq> Panic"
proof -
  have "\<not> items_fit (demo_uplink 0x10 [5, 0, 200]) 1 7" "items_fit (demo_uplink 0x10 [5, 0, 1]) 1 7"
    by (simp_all add: item_end_def demo_uplink_def with_crc_def)
  then show ?thesis
    using business_frame_panics_iff [where frame = "demo_uplink 0x10 [5, 0, 200]" and head = "0x10" and
        sid = "[0x23, 0x8A, 0x08, 0x26, 0x23, 0x19]" and content = "[5, 0, 200]" and
        st = demo_shards and d = "''Data-Demo''" and cb = None]
      business_frame_panics_iff [where frame = "demo_uplink 0x10 [5, 0, 1]" and head = "0x10" and
        sid = "[0x23, 0x8A, 0x08, 0x26, 0x23, 0x19]" and content = "[5, 0, 1]" and
        st = demo_shards and d = "''Data-Demo''" and cb = None] demo_device
    by (simp add: demo_uplink_def with_crc_def drop_bit_numeral_bit0)
qed



lemma shard_inv_SetDeviceValue [simp]: "shard_inv (SetDeviceValue d n v st) \<longleftrightarrow> shard_inv st"
  by (simp add: shard_inv_def has_timeout_def)

lemma Temperature_lookup:
  "LookupParamInfo 5 = Some (pinfo ''Temperature'' [CHR 0xE2, CHR 0x84, CHR 0x83] 4 ''float32'' ParseFloat32)"
  using Temperature_entry by (simp add: LookupParamInfo_def wf_map_in_iff [OF paramMap_wf])



end
