(* ===== verification/Coerce.thy ===== *)
theory Coerce
  imports ConfigState
begin

text \<open>
  Command values (\<open>makeCV\<close>, \<open>coerceTo\<close> and their helpers in
  \<open>driver/wiresinkdriver.go\<close>), with the checks of \<open>NewCommandValue\<close> in the device SDK.
  Integers keep their width, floats are bit patterns.
\<close>

section \<open>Command values\<close>

record CommandValue =
  cv_DeviceResourceName :: string
  cv_Type :: string
  cv_Value :: gvalue
  cv_Origin :: u64

datatype cv_error = TooLarge | WrongType gvalue string | UnrecognizedType string

definition MaxBinaryBytes :: nat where
  "MaxBinaryBytes = 16777216"

text \<open>\<open>binary.Size\<close>, -1 for what has no fixed size.\<close>

fun binary_Size :: "gvalue \<Rightarrow> int" where
  "binary_Size (VBytes b) = int (length b)"
| "binary_Size (VFloat32s fs) = 4 * int (length fs)"
| "binary_Size (VUint16s us) = 2 * int (length us)"
| "binary_Size (VBool b) = 1"
| "binary_Size (VInt8 i) = 1"
| "binary_Size (VUint8 i) = 1"
| "binary_Size (VInt16 i) = 2"
| "binary_Size (VUint16 i) = 2"
| "binary_Size (VInt32 i) = 4"
| "binary_Size (VUint32 i) = 4"
| "binary_Size (VFloat32 f) = 4"
| "binary_Size (VInt64 i) = 8"
| "binary_Size (VUint64 i) = 8"
| "binary_Size (VFloat64 f) = 8"
| "binary_Size _ = - 1"

text \<open>The value types of the SDK, and those with a slice of the given element.\<close>

definition value_types :: "string list" where
  "value_types =
     [''Bool'', ''String'', ''Uint8'', ''Uint16'', ''Uint32'', ''Uint64'', ''Int8'', ''Int16'', ''Int32'',
      ''Int64'', ''Float32'', ''Float64'', ''Binary'', ''BoolArray'', ''StringArray'', ''Uint8Array'',
      ''Uint16Array'', ''Uint32Array'', ''Uint64Array'', ''Int8Array'', ''Int16Array'', ''Int32Array'',
      ''Int64Array'', ''Float32Array'', ''Float64Array'', ''Object'']"

definition has_type :: "gvalue \<Rightarrow> string \<Rightarrow> bool" where
  "has_type v vt \<longleftrightarrow>
     (if vt = ''Object'' then True
      else case v of
        VBool _ \<Rightarrow> vt = ''Bool''
      | VString _ \<Rightarrow> vt = ''String''
      | VUint8 _ \<Rightarrow> vt = ''Uint8''
      | VUint16 _ \<Rightarrow> vt = ''Uint16''
      | VUint32 _ \<Rightarrow> vt = ''Uint32''
      | VUint64 _ \<Rightarrow> vt = ''Uint64''
      | VInt8 _ \<Rightarrow> vt = ''Int8''
      | VInt16 _ \<Rightarrow> vt = ''Int16''
      | VInt32 _ \<Rightarrow> vt = ''Int32''
      | VInt64 _ \<Rightarrow> vt = ''Int64''
      | VFloat32 _ \<Rightarrow> vt = ''Float32''
      | VFloat64 _ \<Rightarrow> vt = ''Float64''
      | VBytes _ \<Rightarrow> vt = ''Binary'' \<or> vt = ''Uint8Array''
      | VUint16s _ \<Rightarrow> vt = ''Uint16Array''
      | VFloat32s _ \<Rightarrow> vt = ''Float32Array''
      | _ \<Rightarrow> False)"

definition validate :: "string \<Rightarrow> gvalue \<Rightarrow> cv_error option" where
  "validate valueType v =
     (if v = VNil then None
      else if valueType \<notin> set value_types then Some (UnrecognizedType valueType)
      else if valueType = ''Binary'' \<and> int MaxBinaryBytes < binary_Size v then Some TooLarge
      else if has_type v valueType then None
      else Some (WrongType v valueType))"

definition NewCommandValue :: "string \<Rightarrow> string \<Rightarrow> gvalue \<Rightarrow> cv_error + CommandValue" where
  "NewCommandValue deviceResourceName valueType v =
     (case validate valueType v of
        Some e \<Rightarrow> Inl e
      | None \<Rightarrow> Inr \<lparr>cv_DeviceResourceName = deviceResourceName, cv_Type = valueType,
          cv_Value = v, cv_Origin = 0\<rparr>)"

text \<open>The value of \<open>Int8Value\<close>; it is 0 beside an error.\<close>

definition Int8Value :: "CommandValue \<Rightarrow> byte" where
  "Int8Value cv =
     (if cv_Type cv \<noteq> ''Int8'' then 0 else case cv_Value cv of VInt8 i \<Rightarrow> i | _ \<Rightarrow> 0)"

section \<open>Conversions\<close>

fun toInt64 :: "golib \<Rightarrow> gvalue \<Rightarrow> u64 option" where
  "toInt64 lib (VInt x) = Some x"
| "toInt64 lib (VInt8 x) = Some (scast x)"
| "toInt64 lib (VInt16 x) = Some (scast x)"
| "toInt64 lib (VInt32 x) = Some (scast x)"
| "toInt64 lib (VInt64 x) = Some x"
| "toInt64 lib (VUint8 x) = Some (ucast x)"
| "toInt64 lib (VUint16 x) = Some (ucast x)"
| "toInt64 lib (VUint32 x) = Some (ucast x)"
| "toInt64 lib (VUint x) = Some x"
| "toInt64 lib (VFloat64 x) = Some (int64_of_flt (lib_int64_other lib (VFloat64 x)) (decode64 x))"
| "toInt64 lib (VFloat32 x) = Some (int64_of_flt (lib_int64_other lib (VFloat32 x)) (decode32 x))"
| "toInt64 lib (VString x) =
     (case ParseInt64 x of
        Some i \<Rightarrow> Some (of_int i)
      | None \<Rightarrow> (case ParseUint 64 x of Some u \<Rightarrow> Some (of_nat u) | None \<Rightarrow> None))"
| "toInt64 lib _ = None"

definition nonneg_int64 :: "u64 option \<Rightarrow> u64 option" where
  "nonneg_int64 r =
     (let i = (case r of Some i \<Rightarrow> i | None \<Rightarrow> 0) in if 0 \<le> sint i then Some i else None)"

fun toUint64 :: "golib \<Rightarrow> gvalue \<Rightarrow> u64 option" where
  "toUint64 lib (VUint8 x) = Some (ucast x)"
| "toUint64 lib (VUint16 x) = Some (ucast x)"
| "toUint64 lib (VUint32 x) = Some (ucast x)"
| "toUint64 lib (VUint64 x) = Some x"
| "toUint64 lib (VUint x) = Some x"
| "toUint64 lib (VInt x) = nonneg_int64 (toInt64 lib (VInt x))"
| "toUint64 lib (VInt8 x) = nonneg_int64 (toInt64 lib (VInt8 x))"
| "toUint64 lib (VInt16 x) = nonneg_int64 (toInt64 lib (VInt16 x))"
| "toUint64 lib (VInt32 x) = nonneg_int64 (toInt64 lib (VInt32 x))"
| "toUint64 lib (VInt64 x) = nonneg_int64 (toInt64 lib (VInt64 x))"
| "toUint64 lib (VFloat64 x) =
     (if flt_nonneg (decode64 x)
      then Some (uint64_of_flt (lib_uint64_other lib (VFloat64 x)) (decode64 x)) else None)"
| "toUint64 lib (VFloat32 x) =
     (if flt_nonneg (decode32 x)
      then Some (uint64_of_flt (lib_uint64_other lib (VFloat32 x)) (decode32 x)) else None)"
| "toUint64 lib (VString x) = map_option of_nat (ParseUint 64 x)"
| "toUint64 lib _ = None"

definition signed_to_float :: "u64 option \<Rightarrow> u64" where
  "signed_to_float r = float64_of_int (sint (case r of Some i \<Rightarrow> i | None \<Rightarrow> 0))"

definition unsigned_to_float :: "u64 option \<Rightarrow> u64" where
  "unsigned_to_float r = float64_of_int (uint (case r of Some u \<Rightarrow> u | None \<Rightarrow> 0))"

fun toFloat64 :: "golib \<Rightarrow> gvalue \<Rightarrow> u64 option" where
  "toFloat64 lib (VFloat64 x) = Some x"
| "toFloat64 lib (VFloat32 x) = Some (float64_of_float32 x)"
| "toFloat64 lib (VInt x) = Some (signed_to_float (toInt64 lib (VInt x)))"
| "toFloat64 lib (VInt8 x) = Some (signed_to_float (toInt64 lib (VInt8 x)))"
| "toFloat64 lib (VInt16 x) = Some (signed_to_float (toInt64 lib (VInt16 x)))"
| "toFloat64 lib (VInt32 x) = Some (signed_to_float (toInt64 lib (VInt32 x)))"
| "toFloat64 lib (VInt64 x) = Some (signed_to_float (toInt64 lib (VInt64 x)))"
| "toFloat64 lib (VUint x) = Some (unsigned_to_float (toUint64 lib (VUint x)))"
| "toFloat64 lib (VUint8 x) = Some (unsigned_to_float (toUint64 lib (VUint8 x)))"
| "toFloat64 lib (VUint16 x) = Some (unsigned_to_float (toUint64 lib (VUint16 x)))"
| "toFloat64 lib (VUint32 x) = Some (unsigned_to_float (toUint64 lib (VUint32 x)))"
| "toFloat64 lib (VUint64 x) = Some (unsigned_to_float (toUint64 lib (VUint64 x)))"
| "toFloat64 lib (VString x) = lib_ParseFloat64 lib x"
| "toFloat64 lib _ = None"

datatype coerce_error =
    BadBool string
  | Overflow int string
  | FloatOverflow u64
  | TypeErr gvalue string
  | BadHexText string hex_error
  | UnsupportedValueType string

definition coerceTo :: "golib \<Rightarrow> gvalue \<Rightarrow> string \<Rightarrow> coerce_error + gvalue" where
  "coerceTo lib val valueType =
     (if valueType = ''Bool'' then
        (case val of
           VBool x \<Rightarrow> Inr (VBool x)
         | VString x \<Rightarrow> (case ParseBool x of Some b \<Rightarrow> Inr (VBool b) | None \<Rightarrow> Inl (BadBool x))
         | VFloat64 x \<Rightarrow> Inr (VBool (flt_nonzero (decode64 x)))
         | VInt _ \<Rightarrow> Inr (VBool (Sprint lib val \<noteq> ''0''))
         | VInt32 _ \<Rightarrow> Inr (VBool (Sprint lib val \<noteq> ''0''))
         | VInt64 _ \<Rightarrow> Inr (VBool (Sprint lib val \<noteq> ''0''))
         | VUint _ \<Rightarrow> Inr (VBool (Sprint lib val \<noteq> ''0''))
         | VUint32 _ \<Rightarrow> Inr (VBool (Sprint lib val \<noteq> ''0''))
         | VUint64 _ \<Rightarrow> Inr (VBool (Sprint lib val \<noteq> ''0''))
         | _ \<Rightarrow> Inl (UnsupportedValueType valueType))
      else if valueType = ''Int8'' then
        (case toInt64 lib val of
           Some v \<Rightarrow> if sint v < - 128 \<or> 127 < sint v then Inl (Overflow (sint v) ''int8'')
             else Inr (VInt8 (ucast v))
         | None \<Rightarrow> Inl (TypeErr val ''int8''))
      else if valueType = ''Int16'' then
        (case toInt64 lib val of
           Some v \<Rightarrow> if sint v < - 32768 \<or> 32767 < sint v then Inl (Overflow (sint v) ''int16'')
             else Inr (VInt16 (ucast v))
         | None \<Rightarrow> Inl (TypeErr val ''int16''))
      else if valueType = ''Int32'' then
        (case toInt64 lib val of
           Some v \<Rightarrow> if sint v < - 2147483648 \<or> 2147483647 < sint v then Inl (Overflow (sint v) ''int32'')
             else Inr (VInt32 (ucast v))
         | None \<Rightarrow> Inl (TypeErr val ''int32''))
      else if valueType = ''Int64'' then
        (case toInt64 lib val of Some v \<Rightarrow> Inr (VInt64 v) | None \<Rightarrow> Inl (TypeErr val ''int64''))
      else if valueType = ''Uint8'' then
        (case toUint64 lib val of
           Some v \<Rightarrow> if 255 < v then Inl (Overflow (uint v) ''uint8'') else Inr (VUint8 (ucast v))
         | None \<Rightarrow> Inl (TypeErr val ''uint8''))
      else if valueType = ''Uint16'' then
        (case toUint64 lib val of
           Some v \<Rightarrow> if 65535 < v then Inl (Overflow (uint v) ''uint16'') else Inr (VUint16 (ucast v))
         | None \<Rightarrow> Inl (TypeErr val ''uint16''))
      else if valueType = ''Uint32'' then
        (case toUint64 lib val of
           Some v \<Rightarrow> if 4294967295 < v then Inl (Overflow (uint v) ''uint32'') else Inr (VUint32 (ucast v))
         | None \<Rightarrow> Inl (TypeErr val ''uint32''))
      else if valueType = ''Uint64'' then
        (case toUint64 lib val of Some v \<Rightarrow> Inr (VUint64 v) | None \<Rightarrow> Inl (TypeErr val ''uint64''))
      else if valueType = ''Float32'' then
        (case toFloat64 lib val of
           Some f \<Rightarrow> if exceeds_float32 (decode64 f) then Inl (FloatOverflow f)
             else Inr (VFloat32 (float32_of_float64 f))
         | None \<Rightarrow> Inl (TypeErr val ''float32''))
      else if valueType = ''Float64'' then
        (case toFloat64 lib val of Some f \<Rightarrow> Inr (VFloat64 f) | None \<Rightarrow> Inl (TypeErr val ''float64''))
      else if valueType = ''String'' then
        (case val of VString x \<Rightarrow> Inr (VString x) | _ \<Rightarrow> Inr (VString (Sprint lib val)))
      else if valueType = ''Binary'' then
        (case val of
           VBytes x \<Rightarrow> Inr (VBytes x)
         | VString x \<Rightarrow>
             (case hex_DecodeString x of Inr b \<Rightarrow> Inr (VBytes b) | Inl e \<Rightarrow> Inl (BadHexText x e))
         | _ \<Rightarrow> Inl (TypeErr val ''[]byte''))
      else Inl (UnsupportedValueType valueType))"

datatype make_error = CoerceFailed string string coerce_error | CVFailed cv_error

text \<open>\<open>now\<close> is the clock in nanoseconds.\<close>

definition makeCV :: "golib \<Rightarrow> int \<Rightarrow> string \<Rightarrow> string \<Rightarrow> gvalue \<Rightarrow> make_error + CommandValue" where
  "makeCV lib now name valueType val =
     (case coerceTo lib val valueType of
        Inl e \<Rightarrow> Inl (CoerceFailed name valueType e)
      | Inr cval \<Rightarrow>
          (case NewCommandValue name valueType cval of
             Inl e \<Rightarrow> Inl (CVFailed e)
           | Inr cv \<Rightarrow> Inr (cv\<lparr>cv_Origin := of_int now\<rparr>)))"

section \<open>Lemmas\<close>

lemma has_type_simps [simp]:
  "has_type VNil vt \<longleftrightarrow> vt = ''Object''"
  "has_type (VBool b) vt \<longleftrightarrow> vt = ''Object'' \<or> vt = ''Bool''"
  "has_type (VInt u) vt \<longleftrightarrow> vt = ''Object''"
  "has_type (VInt8 w8) vt \<longleftrightarrow> vt = ''Object'' \<or> vt = ''Int8''"
  "has_type (VInt16 w16) vt \<longleftrightarrow> vt = ''Object'' \<or> vt = ''Int16''"
  "has_type (VInt32 w32) vt \<longleftrightarrow> vt = ''Object'' \<or> vt = ''Int32''"
  "has_type (VInt64 u) vt \<longleftrightarrow> vt = ''Object'' \<or> vt = ''Int64''"
  "has_type (VUint u) vt \<longleftrightarrow> vt = ''Object''"
  "has_type (VUint8 w8) vt \<longleftrightarrow> vt = ''Object'' \<or> vt = ''Uint8''"
  "has_type (VUint16 w16) vt \<longleftrightarrow> vt = ''Object'' \<or> vt = ''Uint16''"
  "has_type (VUint32 w32) vt \<longleftrightarrow> vt = ''Object'' \<or> vt = ''Uint32''"
  "has_type (VUint64 u) vt \<longleftrightarrow> vt = ''Object'' \<or> vt = ''Uint64''"
  "has_type (VFloat32 w32) vt \<longleftrightarrow> vt = ''Object'' \<or> vt = ''Float32''"
  "has_type (VFloat64 u) vt \<longleftrightarrow> vt = ''Object'' \<or> vt = ''Float64''"
  "has_type (VString s) vt \<longleftrightarrow> vt = ''Object'' \<or> vt = ''String''"
  "has_type (VBytes bs) vt \<longleftrightarrow> vt = ''Object'' \<or> vt = ''Binary'' \<or> vt = ''Uint8Array''"
  "has_type (VFloat32s fs) vt \<longleftrightarrow> vt = ''Object'' \<or> vt = ''Float32Array''"
  "has_type (VUint16s us) vt \<longleftrightarrow> vt = ''Object'' \<or> vt = ''Uint16Array''"
  "has_type (VTopo ns) vt \<longleftrightarrow> vt = ''Object''"
  "has_type (VObject kvs) vt \<longleftrightarrow> vt = ''Object''"
  by (simp_all add: has_type_def)

lemma narrow_signed:
  assumes "LENGTH('b) \<le> LENGTH('a)" "- (2 ^ (LENGTH('b) - 1)) \<le> sint w" "sint w < 2 ^ (LENGTH('b) - 1)"
  shows "sint (ucast (w :: 'a::len word) :: 'b::len word) = sint w"
proof -
  have "ucast w = (scast w :: 'b word)" using assms(1)
    by (simp add: down_cast_same [symmetric] is_down)
  then have "sint (ucast w :: 'b word) = signed_take_bit (LENGTH('b) - 1) (sint w)"
    by (simp add: signed_scast_eq)
  then show ?thesis using assms(2,3) by (simp add: signed_take_bit_int_eq_self)
qed

lemma narrow_unsigned:
  assumes "LENGTH('b) \<le> LENGTH('a)" "uint w < 2 ^ LENGTH('b)"
  shows "uint (ucast (w :: 'a::len word) :: 'b::len word) = uint w"
  using assms by (simp add: unsigned_ucast_eq take_bit_int_eq_self)

text \<open>The integer a value of an integer type denotes, and the range of the integer value types.\<close>

fun int_value :: "gvalue \<Rightarrow> int option" where
  "int_value (VInt x) = Some (sint x)"
| "int_value (VInt8 x) = Some (sint x)"
| "int_value (VInt16 x) = Some (sint x)"
| "int_value (VInt32 x) = Some (sint x)"
| "int_value (VInt64 x) = Some (sint x)"
| "int_value (VUint x) = Some (uint x)"
| "int_value (VUint8 x) = Some (uint x)"
| "int_value (VUint16 x) = Some (uint x)"
| "int_value (VUint32 x) = Some (uint x)"
| "int_value (VUint64 x) = Some (uint x)"
| "int_value _ = None"

definition int_bounds :: "string \<Rightarrow> (int \<times> int) option" where
  "int_bounds vt = map_of
     [(''Int8'', (- (2 ^ 7), 2 ^ 7 - 1)), (''Int16'', (- (2 ^ 15), 2 ^ 15 - 1)),
      (''Int32'', (- (2 ^ 31), 2 ^ 31 - 1)), (''Int64'', (- (2 ^ 63), 2 ^ 63 - 1)),
      (''Uint8'', (0, 2 ^ 8 - 1)), (''Uint16'', (0, 2 ^ 16 - 1)),
      (''Uint32'', (0, 2 ^ 32 - 1)), (''Uint64'', (0, 2 ^ 64 - 1))] vt"

lemma int_bounds_at [simp]:
  "int_bounds ''Int8'' = Some (- 128, 127)"
  "int_bounds ''Int16'' = Some (- 32768, 32767)"
  "int_bounds ''Int32'' = Some (- 2147483648, 2147483647)"
  "int_bounds ''Int64'' = Some (- 9223372036854775808, 9223372036854775807)"
  "int_bounds ''Uint8'' = Some (0, 255)"
  "int_bounds ''Uint16'' = Some (0, 65535)"
  "int_bounds ''Uint32'' = Some (0, 4294967295)"
  "int_bounds ''Uint64'' = Some (0, 18446744073709551615)"
  by (simp_all add: int_bounds_def)

lemma int_bounds_cases:
  assumes "int_bounds vt = Some (lo, hi)"
  obtains (int8) "vt = ''Int8''" "lo = - 128" "hi = 127"
    | (int16) "vt = ''Int16''" "lo = - 32768" "hi = 32767"
    | (int32) "vt = ''Int32''" "lo = - 2147483648" "hi = 2147483647"
    | (int64) "vt = ''Int64''" "lo = - 9223372036854775808" "hi = 9223372036854775807"
    | (uint8) "vt = ''Uint8''" "lo = 0" "hi = 255"
    | (uint16) "vt = ''Uint16''" "lo = 0" "hi = 65535"
    | (uint32) "vt = ''Uint32''" "lo = 0" "hi = 4294967295"
    | (uint64) "vt = ''Uint64''" "lo = 0" "hi = 18446744073709551615"
  using assms by (simp add: int_bounds_def split: if_splits)

lemma coerceTo_integer:
  "coerceTo lib v ''Int8'' = (case toInt64 lib v of
     Some w \<Rightarrow> if sint w < - 128 \<or> 127 < sint w then Inl (Overflow (sint w) ''int8'') else Inr (VInt8 (ucast w))
   | None \<Rightarrow> Inl (TypeErr v ''int8''))"
  "coerceTo lib v ''Int16'' = (case toInt64 lib v of
     Some w \<Rightarrow> if sint w < - 32768 \<or> 32767 < sint w then Inl (Overflow (sint w) ''int16'')
       else Inr (VInt16 (ucast w))
   | None \<Rightarrow> Inl (TypeErr v ''int16''))"
  "coerceTo lib v ''Int32'' = (case toInt64 lib v of
     Some w \<Rightarrow> if sint w < - 2147483648 \<or> 2147483647 < sint w then Inl (Overflow (sint w) ''int32'')
       else Inr (VInt32 (ucast w))
   | None \<Rightarrow> Inl (TypeErr v ''int32''))"
  "coerceTo lib v ''Int64'' = (case toInt64 lib v of Some w \<Rightarrow> Inr (VInt64 w) | None \<Rightarrow> Inl (TypeErr v ''int64''))"
  "coerceTo lib v ''Uint8'' = (case toUint64 lib v of
     Some w \<Rightarrow> if 255 < uint w then Inl (Overflow (uint w) ''uint8'') else Inr (VUint8 (ucast w))
   | None \<Rightarrow> Inl (TypeErr v ''uint8''))"
  "coerceTo lib v ''Uint16'' = (case toUint64 lib v of
     Some w \<Rightarrow> if 65535 < uint w then Inl (Overflow (uint w) ''uint16'') else Inr (VUint16 (ucast w))
   | None \<Rightarrow> Inl (TypeErr v ''uint16''))"
  "coerceTo lib v ''Uint32'' = (case toUint64 lib v of
     Some w \<Rightarrow> if 4294967295 < uint w then Inl (Overflow (uint w) ''uint32'') else Inr (VUint32 (ucast w))
   | None \<Rightarrow> Inl (TypeErr v ''uint32''))"
  "coerceTo lib v ''Uint64'' = (case toUint64 lib v of Some w \<Rightarrow> Inr (VUint64 w) | None \<Rightarrow> Inl (TypeErr v ''uint64''))"
  by (simp_all add: coerceTo_def word_less_def cong: option.case_cong)

lemma signed_target:
  assumes "toInt64 lib v = Some w" "int_bounds vt = Some (lo, hi)" "lo < 0"
  shows "if lo \<le> sint w \<and> sint w \<le> hi
    then \<exists>c. coerceTo lib v vt = Inr c \<and> has_type c vt \<and> int_value c = Some (sint w)
    else \<exists>s. coerceTo lib v vt = Inl (Overflow (sint w) s)"
proof -
  have n8: "sint (ucast w :: byte) = sint w" if "- 128 \<le> sint w" "sint w \<le> 127"
    using that by (intro narrow_signed) simp_all
  have n16: "sint (ucast w :: u16) = sint w" if "- 32768 \<le> sint w" "sint w \<le> 32767"
    using that by (intro narrow_signed) simp_all
  have n32: "sint (ucast w :: u32) = sint w" if "- 2147483648 \<le> sint w" "sint w \<le> 2147483647"
    using that by (intro narrow_signed) simp_all
  have b64: "- 9223372036854775808 \<le> sint w" "sint w \<le> 9223372036854775807"
    using sint_ge [of w] sint_lt [of w] by simp_all
  show ?thesis
    using assms(2) by (rule int_bounds_cases)
      (use assms(1,3) n8 n16 n32 b64 in \<open>simp_all add: coerceTo_integer not_less\<close>)
qed

lemma unsigned_target:
  assumes "toUint64 lib v = Some w" "int_bounds vt = Some (0, hi)"
  shows "if uint w \<le> hi
    then \<exists>c. coerceTo lib v vt = Inr c \<and> has_type c vt \<and> int_value c = Some (uint w)
    else \<exists>s. coerceTo lib v vt = Inl (Overflow (uint w) s)"
proof -
  have n8: "uint (ucast w :: byte) = uint w" if "uint w \<le> 255"
    using that by (intro narrow_unsigned) simp_all
  have n16: "uint (ucast w :: u16) = uint w" if "uint w \<le> 65535"
    using that by (intro narrow_unsigned) simp_all
  have n32: "uint (ucast w :: u32) = uint w" if "uint w \<le> 4294967295"
    using that by (intro narrow_unsigned) simp_all
  have b64: "uint w \<le> 18446744073709551615" using unsigned_less [of w, where ?'a = int] by simp
  show ?thesis
    using assms(2) by (rule int_bounds_cases)
      (use assms(1) n8 n16 n32 b64 in \<open>simp_all add: coerceTo_integer not_less\<close>)
qed

lemma untyped_target:
  assumes "int_bounds vt = Some (lo, hi)"
  shows "lo < 0 \<Longrightarrow> toInt64 lib v = None \<Longrightarrow> \<exists>s. coerceTo lib v vt = Inl (TypeErr v s)"
    and "lo = 0 \<Longrightarrow> toUint64 lib v = None \<Longrightarrow> \<exists>s. coerceTo lib v vt = Inl (TypeErr v s)"
  using assms by - (rule int_bounds_cases, assumption, simp_all add: coerceTo_integer)+

text \<open>What the two 64-bit readings make of an integer.\<close>

lemma toInt64_integer:
  assumes "int_value v = Some i"
  shows "case v of VUint64 _ \<Rightarrow> toInt64 lib v = None | _ \<Rightarrow> toInt64 lib v = Some (of_int i)"
proof -
  have s: "of_int (sint w) = (scast w :: u64)" "of_int (uint w) = (ucast w :: u64)" for w :: "'b::len word"
    by (simp_all)
  show ?thesis using assms by (cases v) (auto simp: s)
qed

lemma toUint64_integer:
  assumes "int_value v = Some i"
  shows "toUint64 lib v = (if 0 \<le> i then Some (of_int i) else None)"
proof -
  have sx: "sint (scast w :: u64) = sint w" if "LENGTH('b) \<le> 64" for w :: "'b::len word"
    using that by (simp add: sint_up_scast is_up)
  show ?thesis using assms by (cases v) (auto simp: nonneg_int64_def sx not_le)
qed

lemma sint_of_int64: "- (2 ^ 63) \<le> i \<Longrightarrow> i < 2 ^ 63 \<Longrightarrow> sint (of_int i :: u64) = i"
  by (simp add: signed_of_int signed_take_bit_int_eq_self)

lemma uint_of_int64: "0 \<le> i \<Longrightarrow> i < 2 ^ 64 \<Longrightarrow> uint (of_int i :: u64) = i"
  by (simp add: unsigned_of_int take_bit_int_eq_self)

lemma signed_low: "sint w < 2 ^ (LENGTH('a) - 1)" "- (2 ^ (LENGTH('a) - 1)) \<le> sint (w :: 'a::len word)"
  using sint_lt [of w] sint_ge [of w] by simp_all

lemma int_value_bounds:
  assumes "int_value v = Some i"
  shows "- (2 ^ 63) \<le> i \<and> i < 2 ^ 64"
proof -
  have s: "- (2 ^ 63) \<le> sint w \<and> sint w < 2 ^ 64" if "LENGTH('b) \<le> 64" for w :: "'b::len word"
  proof -
    have "(2 :: int) ^ (LENGTH('b) - 1) \<le> 2 ^ 63" using that by (intro power_increasing) simp_all
    then show ?thesis using signed_low [of w] by (simp; linarith)
  qed
  have u: "- (2 ^ 63) \<le> uint w \<and> uint w < 2 ^ 64" if "LENGTH('b) \<le> 64" for w :: "'b::len word"
  proof -
    have "(2 :: int) ^ LENGTH('b) \<le> 2 ^ 64" using that by (intro power_increasing) simp_all
    with unsigned_less [of w, where ?'a = int] have "uint w < 2 ^ 64" by (rule less_le_trans)
    moreover have "- (2 ^ 63) \<le> uint w" by (rule order_trans [of _ 0]) simp_all
    ultimately show ?thesis by simp
  qed
  show ?thesis
    using assms
    by (cases v) (auto simp del: power_numeral intro!: s [THEN conjunct1] s [THEN conjunct2]
        u [THEN conjunct1] u [THEN conjunct2])
qed

lemma coerce_integer:
  assumes v: "int_value v = Some i" and vt: "int_bounds vt = Some (lo, hi)"
    and ok: "lo = 0 \<or> (\<forall>w. v \<noteq> VUint64 w) \<and> i < 2 ^ 63"
  shows "if lo \<le> i \<and> i \<le> hi then \<exists>c. coerceTo lib v vt = Inr c \<and> has_type c vt \<and> int_value c = Some i
    else \<exists>e. coerceTo lib v vt = Inl e"
proof (cases "lo = 0")
  case False
  then have lo: "lo < 0" using vt by (rule_tac int_bounds_cases [OF vt]) simp_all
  have "toInt64 lib v = Some (of_int i)"
    using toInt64_integer [OF v, of lib] ok False by (cases v) auto
  moreover have "sint (of_int i :: u64) = i"
    using sint_of_int64 int_value_bounds [OF v] ok False by blast
  ultimately show ?thesis using signed_target [OF _ vt lo, of lib v "of_int i"] by (auto split: if_splits)
next
  case lo: True
  show ?thesis
  proof (cases "0 \<le> i")
    case True
    then have "toUint64 lib v = Some (of_int i)" using toUint64_integer [OF v, of lib] by simp
    moreover have "uint (of_int i :: u64) = i"
      using uint_of_int64 int_value_bounds [OF v] True by blast
    ultimately show ?thesis
      using unsigned_target [of lib v "of_int i" vt hi] vt lo True by (auto split: if_splits)
  next
    case False
    then have "toUint64 lib v = None" using toUint64_integer [OF v, of lib] by simp
    then show ?thesis using untyped_target(2) [OF vt lo] lo False by auto
  qed
qed

lemma uint_most: "uint w \<le> 2 ^ LENGTH('a) - 1" for w :: "'a::len word"
  using unsigned_less [of w, where ?'a = int] by simp

lemma sint_most:
  "- (2 ^ (LENGTH('a) - 1)) \<le> sint w \<and> sint w \<le> 2 ^ (LENGTH('a) - 1) - 1" for w :: "'a::len word"
  using signed_low [of w] by simp

lemma typed_integer:
  assumes "int_bounds vt = Some (lo, hi)" "has_type v vt" "int_value v = Some j"
  shows "lo \<le> j \<and> j \<le> hi \<and> (lo < 0 \<or> lo = 0) \<and> (lo < 0 \<longrightarrow> hi < 2 ^ 63)"
  using assms(2,3)
    uint_most [where ?'a = 8] uint_most [where ?'a = 16] uint_most [where ?'a = 32] uint_most [where ?'a = 64]
    sint_most [where ?'a = 8] sint_most [where ?'a = 16] sint_most [where ?'a = 32] sint_most [where ?'a = 64]
  by (cases v; rule_tac int_bounds_cases [OF assms(1)]) auto

definition int_of_type :: "string \<Rightarrow> int \<Rightarrow> gvalue" where
  "int_of_type vt j =
     (if vt = ''Int8'' then VInt8 (of_int j) else if vt = ''Int16'' then VInt16 (of_int j)
      else if vt = ''Int32'' then VInt32 (of_int j) else if vt = ''Int64'' then VInt64 (of_int j)
      else if vt = ''Uint8'' then VUint8 (of_int j) else if vt = ''Uint16'' then VUint16 (of_int j)
      else if vt = ''Uint32'' then VUint32 (of_int j) else VUint64 (of_int j))"

lemma typed_integer_form:
  assumes "int_bounds vt = Some (lo, hi)" "has_type v vt" "int_value v = Some j"
  shows "v = int_of_type vt j"
  using assms(2,3) by (cases v; rule_tac int_bounds_cases [OF assms(1)]) (auto simp: int_of_type_def)

text \<open>Decimal text.\<close>

lemma digits_val_append:
  "digits_val acc (xs @ ys) = (case digits_val acc xs of None \<Rightarrow> None | Some a \<Rightarrow> digits_val a ys)"
  by (induction xs arbitrary: acc) (simp_all split: option.splits)

lemma digit_val_nth: "d < 10 \<Longrightarrow> digit_val (''0123456789'' ! d) = Some d"
proof -
  have "\<forall>d < 10. digit_val (''0123456789'' ! d) = Some d" by code_simp
  then show "d < 10 \<Longrightarrow> digit_val (''0123456789'' ! d) = Some d" by blast
qed

lemma digits_val_dec: "digits_val 0 (dec_digits n) = Some n"
proof (induction n rule: dec_digits.induct)
  case (1 n)
  show ?case
  proof (cases "n < 10")
    case True
    then show ?thesis by (subst dec_digits.simps) (simp add: digit_val_nth)
  next
    case False
    then have "digits_val 0 (dec_digits n) =
        digits_val 0 (dec_digits (n div 10) @ [''0123456789'' ! (n mod 10)])"
      by (subst dec_digits.simps) simp
    then show ?thesis using 1 [OF False] by (simp add: digits_val_append digit_val_nth)
  qed
qed

lemma ParseUint_dec [simp]: "ParseUint b (dec_digits n) = (if n < 2 ^ b then Some n else None)"
  by (simp add: ParseUint_def dec_digits_nonempty digits_val_dec)

lemma dec_digits_head: "dec_digits n = c # r \<Longrightarrow> c \<noteq> CHR ''-'' \<and> c \<noteq> CHR ''+''"
  using digits_val_dec [of n] by (auto simp: digit_val_def)

lemma ParseUint_Itoa: "ParseUint b (Itoa i) = (if 0 \<le> i \<and> i < 2 ^ b then Some (nat i) else None)"
proof (cases "i < 0")
  case True
  then show ?thesis by (simp add: Itoa_def ParseUint_def digit_val_def)
next
  case False
  then have "(nat i < 2 ^ b) = (i < 2 ^ b)" by (simp add: nat_less_iff)
  then show ?thesis using False by (simp add: Itoa_def)
qed

lemma ParseInt64_Itoa: "ParseInt64 (Itoa i) = (if - (2 ^ 63) \<le> i \<and> i < 2 ^ 63 then Some i else None)"
proof (cases "i < 0")
  case True
  then show ?thesis by (auto simp: Itoa_def ParseInt64_def)
next
  case False
  obtain c r where cr: "dec_digits (nat i) = c # r" by (cases "dec_digits (nat i)") (simp_all add: dec_digits_nonempty)
  then have "ParseUint 64 (c # r) = (if nat i < 2 ^ 64 then Some (nat i) else None)"
    using ParseUint_dec [of 64 "nat i"] by simp
  then show ?thesis using False cr dec_digits_head [OF cr] by (auto simp: Itoa_def ParseInt64_def)
qed

lemma toInt64_text:
  "toInt64 lib (VString (Itoa i)) = (if - (2 ^ 63) \<le> i \<and> i < 2 ^ 64 then Some (of_int i) else None)"
  by (auto simp: ParseInt64_Itoa ParseUint_Itoa)

lemma toUint64_text:
  "toUint64 lib (VString (Itoa i)) = (if 0 \<le> i \<and> i < 2 ^ 64 then Some (of_int i) else None)"
  by (auto simp: ParseUint_Itoa)

lemma coerce_text_signed:
  assumes "int_bounds vt = Some (lo, hi)" "- (2 ^ 63) \<le> i" "i < 2 ^ 64" "lo < 0"
  shows "coerceTo lib (VString (Itoa i)) vt = coerceTo lib (VInt64 (of_int i)) vt"
  using assms(1) by (rule int_bounds_cases)
    (use assms(2-) in \<open>simp_all del: toInt64.simps(12) add: coerceTo_integer toInt64_text\<close>)

lemma coerce_text_unsigned:
  assumes "int_bounds vt = Some (lo, hi)" "0 \<le> i" "i < 2 ^ 64" "lo = 0"
  shows "coerceTo lib (VString (Itoa i)) vt = coerceTo lib (VUint64 (of_int i)) vt"
  using assms(1) by (rule int_bounds_cases)
    (use assms(2-) in \<open>simp_all del: toUint64.simps(13) add: coerceTo_integer toUint64_text\<close>)

lemma coerce_printed:
  assumes vt: "int_bounds vt = Some (lo, hi)" and v: "has_type v vt" "int_value v = Some j"
  shows "coerceTo lib (VString (Itoa j)) vt = Inr v"
proof -
  note t = typed_integer [OF assms] and b = int_value_bounds [OF v(2)]
  have "\<exists>u. coerceTo lib (VString (Itoa j)) vt = coerceTo lib u vt \<and> int_value u = Some j \<and>
    (lo = 0 \<or> (\<forall>w. u \<noteq> VUint64 w) \<and> j < 2 ^ 63)"
  proof (cases "lo < 0")
    case True
    then show ?thesis using t b
      by (intro exI [of _ "VInt64 (of_int j)"]) (simp add: coerce_text_signed [OF vt] sint_of_int64)
  next
    case False
    then show ?thesis using t b
      by (intro exI [of _ "VUint64 (of_int j)"]) (simp add: coerce_text_unsigned [OF vt] uint_of_int64)
  qed
  then obtain u where u: "coerceTo lib (VString (Itoa j)) vt = coerceTo lib u vt" "int_value u = Some j"
    "lo = 0 \<or> (\<forall>w. u \<noteq> VUint64 w) \<and> j < 2 ^ 63" by blast
  then obtain c where c: "coerceTo lib u vt = Inr c" "has_type c vt" "int_value c = Some j"
    using coerce_integer [OF u(2) vt u(3), of lib] t by auto
  then have "c = v" using typed_integer_form [OF vt] v by metis
  then show ?thesis using u(1) c(1) by simp
qed

text \<open>
  A value of the requested type is handed out as it is; of the floats, the finite ones.
\<close>

definition plain_value :: "gvalue \<Rightarrow> bool" where
  "plain_value v \<longleftrightarrow>
     (case v of
        VFloat32 b \<Rightarrow> (\<exists>s m e. decode32 b = Finite s m e)
      | VFloat32s _ \<Rightarrow> False | VUint16s _ \<Rightarrow> False | _ \<Rightarrow> True)"

lemma coerce_own_type:
  assumes "has_type v vt" "vt \<noteq> ''Object''" "vt \<noteq> ''Uint8Array''" "plain_value v"
  shows "coerceTo lib v vt = Inr v"
proof (cases "int_value v")
  case None
  have "\<not> exceeds_float32 (decode64 (float64_of_float32 b)) \<and> float32_of_float64 (float64_of_float32 b) = b"
    if "v = VFloat32 b" for b
    using that assms(4) float32_roundtrip by (auto simp: plain_value_def)
  then show ?thesis
    using assms None by (cases v) (auto simp: coerceTo_def plain_value_def)
next
  case (Some j)
  then obtain lo hi where vt: "int_bounds vt = Some (lo, hi)"
    using assms(1,2) by (cases v) auto
  note t = typed_integer [OF vt assms(1) Some]
  have "(\<forall>w. v \<noteq> VUint64 w) \<or> lo = 0"
    using assms(1,2) vt by (cases v) auto
  then have "lo = 0 \<or> (\<forall>w. v \<noteq> VUint64 w) \<and> j < 2 ^ 63" using t by auto
  from coerce_integer [OF Some vt this, of lib] t
  obtain c where "coerceTo lib v vt = Inr c" "has_type c vt" "int_value c = Some j" by auto
  then show ?thesis
    using typed_integer_form [OF vt] assms(1) Some by metis
qed

lemma coerced_type: "coerceTo lib v vt = Inr c \<Longrightarrow> has_type c vt \<and> vt \<in> set value_types \<and> c \<noteq> VNil"
  unfolding coerceTo_def
  by (auto simp: value_types_def split: if_splits option.splits sum.splits gvalue.splits)

section \<open>Properties\<close>


text \<open>C30: a stored integer is read as an integer type unchanged when it is
  in the range of that type and refused otherwise, whatever its own width; the exceptions
  are a uint64, which no signed type accepts even when it fits, and a uint of 2^63 or more,
  which a signed type reads as the negative int with the same bits.\<close>

theorem coerce_integer_exact:
  assumes "int_value v = Some i" and "int_bounds vt = Some (lo, hi)"
  shows "((\<forall>w. v \<noteq> VUint64 w) \<and> i < 2 ^ 63 \<or> lo = 0 \<longrightarrow>
      (if lo \<le> i \<and> i \<le> hi
       then \<exists>c. coerceTo lib v vt = Inr c \<and> has_type c vt \<and> int_value c = Some i
       else \<exists>e. coerceTo lib v vt = Inl e)) \<and>
    (\<forall>w. v = VUint64 w \<and> lo < 0 \<longrightarrow> (\<exists>s. coerceTo lib v vt = Inl (TypeErr v s))) \<and>
    (\<forall>w. v = VUint w \<and> lo < 0 \<longrightarrow> coerceTo lib v vt = coerceTo lib (VInt64 w) vt)"
proof (intro conjI allI impI)
  show "if lo \<le> i \<and> i \<le> hi
       then \<exists>c. coerceTo lib v vt = Inr c \<and> has_type c vt \<and> int_value c = Some i
       else \<exists>e. coerceTo lib v vt = Inl e"
    if "(\<forall>w. v \<noteq> VUint64 w) \<and> i < 2 ^ 63 \<or> lo = 0"
    using coerce_integer [OF assms] that by blast
  show "\<exists>s. coerceTo lib v vt = Inl (TypeErr v s)" if "v = VUint64 w \<and> lo < 0" for w
    using untyped_target(1) [OF assms(2)] that by simp
  show "coerceTo lib v vt = coerceTo lib (VInt64 w) vt" if "v = VUint w \<and> lo < 0" for w
    using that by (rule_tac int_bounds_cases [OF assms(2)]) (simp_all add: coerceTo_integer)
qed

theorem coerce_integer_exact_witness:
  "(\<exists>c. coerceTo demo_lib (VUint16 300) ''Int32'' = Inr c \<and> has_type c ''Int32'' \<and> int_value c = Some 300) \<and>
   (\<exists>e. coerceTo demo_lib (VUint16 300) ''Int8'' = Inl e)"
  using coerce_integer_exact [where v = "VUint16 300" and vt = "''Int32''" and lib = demo_lib]
    coerce_integer_exact [where v = "VUint16 300" and vt = "''Int8''" and lib = demo_lib]
  by simp

text \<open>C32: decimal text is read by a signed type as the signed 64-bit integer
  with its low 64 bits, so a text from 2^63 up to 2^64 wraps to a negative number instead of
  being refused; an unsigned type reads it exactly, and what fits neither is a type error.
  An integer printed as a string and read back with its own type is unchanged.\<close>

theorem coerce_decimal_text:
  assumes "int_bounds vt = Some (lo, hi)"
  shows "(- (2 ^ 63) \<le> i \<and> i < 2 ^ 64 \<and> lo < 0 \<longrightarrow>
      coerceTo lib (VString (Itoa i)) vt = coerceTo lib (VInt64 (of_int i)) vt) \<and>
    (0 \<le> i \<and> i < 2 ^ 64 \<and> lo = 0 \<longrightarrow>
      coerceTo lib (VString (Itoa i)) vt = coerceTo lib (VUint64 (of_int i)) vt) \<and>
    (i < - (2 ^ 63) \<or> 2 ^ 64 \<le> i \<or> i < 0 \<and> lo = 0 \<longrightarrow>
      (\<exists>s. coerceTo lib (VString (Itoa i)) vt = Inl (TypeErr (VString (Itoa i)) s))) \<and>
    (has_type v vt \<and> int_value v = Some j \<longrightarrow>
      coerceTo lib v ''String'' = Inr (VString (Itoa j)) \<and> coerceTo lib (VString (Itoa j)) vt = Inr v)"
proof (intro conjI impI)
  let ?s = "VString (Itoa i)"
  show "coerceTo lib ?s vt = coerceTo lib (VInt64 (of_int i)) vt"
    if "- (2 ^ 63) \<le> i \<and> i < 2 ^ 64 \<and> lo < 0"
    using that coerce_text_signed [OF assms] by blast
  show "coerceTo lib ?s vt = coerceTo lib (VUint64 (of_int i)) vt"
    if "0 \<le> i \<and> i < 2 ^ 64 \<and> lo = 0"
    using that coerce_text_unsigned [OF assms] by blast
  show "\<exists>s. coerceTo lib ?s vt = Inl (TypeErr ?s s)"
    if "i < - (2 ^ 63) \<or> 2 ^ 64 \<le> i \<or> i < 0 \<and> lo = 0"
  proof (cases "lo = 0")
    case True
    then show ?thesis using that toUint64_text [of lib i]
      by (intro untyped_target(2) [OF assms]) (auto simp del: toUint64.simps)
  next
    case False
    then have "lo < 0" by (rule_tac int_bounds_cases [OF assms]) simp_all
    then show ?thesis using that toInt64_text [of lib i]
      by (intro untyped_target(1) [OF assms]) (auto simp del: toInt64.simps)
  qed
  assume v: "has_type v vt \<and> int_value v = Some j"
  show "coerceTo lib v ''String'' = Inr (VString (Itoa j))"
    using v by (cases v) (auto simp: coerceTo_def)
  show "coerceTo lib (VString (Itoa j)) vt = Inr v"
    using v by (intro coerce_printed [OF assms]) simp_all
qed

theorem coerce_decimal_text_witness:
  "coerceTo demo_lib (VString (Itoa 18446744073709551615)) ''Int8'' = Inr (VInt8 (- 1)) \<and>
   coerceTo demo_lib (VString (Itoa 42)) ''Uint8'' = Inr (VUint8 42)"
  using coerce_decimal_text [where vt = "''Int8''" and lib = demo_lib and i = 18446744073709551615]
    coerce_decimal_text [where vt = "''Uint8''" and lib = demo_lib and v = "VUint8 42" and j = 42]
  by (simp add: coerceTo_integer)

end
