(* ===== verification/Driver.thy ===== *)
theory Driver
  imports FrameParser Coerce
begin

text \<open>
  The EdgeX driver: the command handlers (\<open>driver/command.go\<close>), the callbacks of the
  device SDK (\<open>driver/wiresinkdriver.go\<close>) and the asynchronous reports
  (\<open>driver/cmdupload.go\<close>). The metadata the SDK holds is a parameter. The channel to the
  SDK is a queue of at most \<open>async_room\<close> values; a send waits when it is full.
\<close>

section \<open>State\<close>

record AsyncValues =
  av_DeviceName :: string
  av_SourceName :: string
  av_CommandValues :: "CommandValue list"

record driver_state = shard_state +
  asyncCh :: "AsyncValues list"
  async_room :: nat

record CommandRequest =
  cr_DeviceResourceName :: string
  cr_Type :: string

record ProfileResource =
  pr_Name :: string
  pr_DefaultValue :: string
  pr_ValueType :: string

record 'e metadata =
  md_GetDeviceByName :: "string \<Rightarrow> 'e + string"
  md_GetProfileByName :: "string \<Rightarrow> 'e + ProfileResource list"

datatype command_error =
    EIDNotInitialised string
  | BadEID hex_error
  | WrongEIDLength nat
  | BuildFailed build_error
  | CountMismatch nat nat

section \<open>Commands\<close>

text \<open>
  The common start of the handlers: the sensor ID of the frame, which is a constant, and
  the address from the device's \<open>eid\<close> value, empty when that is no string.
\<close>

definition command_target :: "string \<Rightarrow> 'a config_state_scheme \<Rightarrow> command_error + (bytes \<times> string)" where
  "command_target deviceName st =
     (case GetDeviceValue deviceName ''eid'' st of
        None \<Rightarrow> Inl (EIDNotInitialised deviceName)
      | Some eidValue \<Rightarrow>
          (case hex_DecodeString ''238A0841D828'' of
             Inl e \<Rightarrow> Inl (BadEID e)
           | Inr eidBytes \<Rightarrow>
               if length eidBytes \<noteq> 6 then Inl (WrongEIDLength (length eidBytes))
               else Inr (go_copy (replicate 6 0) eidBytes, case eidValue of VString s \<Rightarrow> s | _ \<Rightarrow> [])))"

definition handleTimeParameterSet :: "string \<Rightarrow> 'a gateway_state_scheme \<Rightarrow>
    command_error option \<times> 'a gateway_state_scheme" where
  "handleTimeParameterSet deviceName st =
     (case command_target deviceName st of
        Inl e \<Rightarrow> (Some e, st)
      | Inr (sensorID, eidStr) \<Rightarrow>
          (let ts = of_int (clock st div 1000000000);
               reqFrame = (case BuildTimeParamFrame sensorID 1 ts of Inr f \<Rightarrow> f | Inl _ \<Rightarrow> [])
           in (None, SendFrame eidStr reqFrame st)))"

definition handleResetCommand :: "string \<Rightarrow> 'a gateway_state_scheme \<Rightarrow>
    command_error option \<times> 'a gateway_state_scheme" where
  "handleResetCommand deviceName st =
     (case command_target deviceName st of
        Inl e \<Rightarrow> (Some e, st)
      | Inr (sensorID, eidStr) \<Rightarrow> (None, SendFrame eidStr (BuildResetRequest sensorID) st))"

definition handleTimeParameterQuery :: "string \<Rightarrow> 'a gateway_state_scheme \<Rightarrow>
    command_error option \<times> 'a gateway_state_scheme" where
  "handleTimeParameterQuery deviceName st =
     (case command_target deviceName st of
        Inl e \<Rightarrow> (Some e, st)
      | Inr (sensorID, eidStr) \<Rightarrow>
          (let reqFrame = (case BuildTimeParamFrame sensorID 0 0 of Inr f \<Rightarrow> f | Inl _ \<Rightarrow> [])
           in (None, SendFrame eidStr reqFrame st)))"

definition handleIdQuery :: "string \<Rightarrow> 'a gateway_state_scheme \<Rightarrow>
    command_error option \<times> 'a gateway_state_scheme" where
  "handleIdQuery deviceName st =
     (case command_target deviceName st of
        Inl e \<Rightarrow> (Some e, st)
      | Inr (sensorID, eidStr) \<Rightarrow>
          (case BuildSensorIDFrame sensorID 0 (replicate 6 0) of
             Inl e \<Rightarrow> (Some (BuildFailed e), st)
           | Inr frame \<Rightarrow> (None, SendFrame eidStr frame st)))"

definition handleIdMoniDataQuery :: "string \<Rightarrow> 'a gateway_state_scheme \<Rightarrow>
    command_error option \<times> 'a gateway_state_scheme" where
  "handleIdMoniDataQuery deviceName st =
     (case command_target deviceName st of
        Inl e \<Rightarrow> (Some e, st)
      | Inr (sensorID, eidStr) \<Rightarrow> (None, SendFrame eidStr (BuildMonitoringDataQueryFrame sensorID) st))"

definition handleIdAlarmParaQuery :: "string \<Rightarrow> 'a gateway_state_scheme \<Rightarrow>
    command_error option \<times> 'a gateway_state_scheme" where
  "handleIdAlarmParaQuery deviceName st =
     (case command_target deviceName st of
        Inl e \<Rightarrow> (Some e, st)
      | Inr (sensorID, eidStr) \<Rightarrow> (None, SendFrame eidStr (BuildAlarmParameterQueryFrame sensorID) st))"

definition handleGeneParaQuery :: "string \<Rightarrow> 'a gateway_state_scheme \<Rightarrow>
    command_error option \<times> 'a gateway_state_scheme" where
  "handleGeneParaQuery deviceName st =
     (case command_target deviceName st of
        Inl e \<Rightarrow> (Some e, st)
      | Inr (sensorID, eidStr) \<Rightarrow> (None, SendFrame eidStr (BuildParameterQueryFrame sensorID) st))"

definition handleRouterParameterQuery :: "string \<Rightarrow> 'a gateway_state_scheme \<Rightarrow>
    command_error option \<times> 'a gateway_state_scheme" where
  "handleRouterParameterQuery deviceName st =
     (case command_target deviceName st of
        Inl e \<Rightarrow> (Some e, st)
      | Inr (sensorID, eidStr) \<Rightarrow>
          (None, SendFrame eidStr (BuildGeneralParamQueryFrame sensorID 0x0800) st))"

text \<open>One request of a write: the tests of the resource name, one after the other.\<close>

definition write_handlers ::
    "(string \<times> (string \<Rightarrow> 'a gateway_state_scheme \<Rightarrow> command_error option \<times> 'a gateway_state_scheme)) list" where
  "write_handlers =
     [(''Time_Parameter_Query'', handleTimeParameterQuery),
      (''Time_Parameter_Set'', handleTimeParameterSet),
      (''Reset_Set'', handleResetCommand),
      (''ID_Query'', handleIdQuery),
      (''General_Parameter_Query'', handleGeneParaQuery),
      (''Alarm_Parameter_Query'', handleIdAlarmParaQuery),
      (''Monitoring_Data_Query'', handleIdMoniDataQuery),
      (''topologyDiagramQuery'', handleRouterParameterQuery)]"

fun run_handlers :: "(string \<times> (string \<Rightarrow> 'a gateway_state_scheme \<Rightarrow> command_error option \<times> 'a gateway_state_scheme)) list \<Rightarrow>
    string \<Rightarrow> string \<Rightarrow> byte \<Rightarrow> 'a gateway_state_scheme \<Rightarrow> command_error option \<times> 'a gateway_state_scheme" where
  "run_handlers [] deviceName resName v st = (None, st)"
| "run_handlers ((name, handler) # hs) deviceName resName v st =
     (if resName = name \<and> v = 1
      then (case handler deviceName st of
          (Some e, st') \<Rightarrow> (Some e, st')
        | (None, st') \<Rightarrow> run_handlers hs deviceName resName v st')
      else run_handlers hs deviceName resName v st)"

fun write_requests :: "string \<Rightarrow> (CommandRequest \<times> CommandValue) list \<Rightarrow>
    'a gateway_state_scheme \<Rightarrow> command_error option \<times> 'a gateway_state_scheme" where
  "write_requests deviceName [] st = (None, st)"
| "write_requests deviceName ((req, cv) # rest) st =
     (case run_handlers write_handlers deviceName (cr_DeviceResourceName req) (Int8Value cv) st of
        (Some e, st') \<Rightarrow> (Some e, st')
      | (None, st') \<Rightarrow> write_requests deviceName rest st')"

definition HandleWriteCommands :: "string \<Rightarrow> CommandRequest list \<Rightarrow> CommandValue list \<Rightarrow>
    'a gateway_state_scheme \<Rightarrow> command_error option \<times> 'a gateway_state_scheme" where
  "HandleWriteCommands deviceName reqs params st =
     (if length reqs \<noteq> length params then (Some (CountMismatch (length reqs) (length params)), st)
      else write_requests deviceName (zip reqs params) st)"

section \<open>Reading\<close>

datatype read_error =
    NoValues string | NoResource string string | TopologyFailed cv_error | MakeFailed make_error

definition read_request :: "golib \<Rightarrow> string \<Rightarrow> gvalue gomap \<Rightarrow> 'a gateway_state_scheme \<Rightarrow>
    CommandRequest \<Rightarrow> read_error + CommandValue" where
  "read_request lib deviceName vals st req =
     (let resName = cr_DeviceResourceName req in
      if resName = ''topologyDiagram'' then
        (case NewCommandValue resName ''Object'' (VTopo (GetTopoList st)) of
           Inl e \<Rightarrow> Inl (TopologyFailed e)
         | Inr cv \<Rightarrow> Inr cv)
      else
        (case mget vals resName of
           None \<Rightarrow> Inl (NoResource deviceName resName)
         | Some v \<Rightarrow>
             (case makeCV lib (clock st) resName (cr_Type req) v of
                Inl e \<Rightarrow> Inl (MakeFailed e)
              | Inr cv \<Rightarrow> Inr cv)))"

fun read_requests :: "golib \<Rightarrow> string \<Rightarrow> gvalue gomap \<Rightarrow> CommandRequest list \<Rightarrow>
    'a gateway_state_scheme \<Rightarrow> read_error + CommandValue list" where
  "read_requests lib deviceName vals [] st = Inr []"
| "read_requests lib deviceName vals (req # reqs) st =
     (case read_request lib deviceName vals st req of
        Inl e \<Rightarrow> Inl e
      | Inr cv \<Rightarrow>
          (case read_requests lib deviceName vals reqs st of
             Inl e \<Rightarrow> Inl e
           | Inr cvs \<Rightarrow> Inr (cv # cvs)))"

definition HandleReadCommands :: "golib \<Rightarrow> string \<Rightarrow> CommandRequest list \<Rightarrow>
    'a gateway_state_scheme \<Rightarrow> read_error + CommandValue list" where
  "HandleReadCommands lib deviceName reqs st =
     (case GetDeviceValues deviceName st of
        None \<Rightarrow> Inl (NoValues deviceName)
      | Some vals \<Rightarrow> read_requests lib deviceName vals reqs st)"

section \<open>Devices\<close>

datatype 'e device_error = NoDevice 'e | NoProfile string 'e | RemoveFailed config_error

definition init_resources :: "golib \<Rightarrow> string \<Rightarrow> ProfileResource list \<Rightarrow>
    'a config_state_scheme \<Rightarrow> 'a config_state_scheme" where
  "init_resources lib deviceName drs st =
     fold (\<lambda>dr. DeviceInit lib deviceName (pr_Name dr) (pr_DefaultValue dr) (pr_ValueType dr)) drs st"

definition AddDevice :: "golib \<Rightarrow> ('e, 'f) metadata_scheme \<Rightarrow> string \<Rightarrow>
    'a config_state_scheme \<Rightarrow> 'e device_error option \<times> 'a config_state_scheme" where
  "AddDevice lib md deviceName st =
     (case md_GetDeviceByName md deviceName of
        Inl e \<Rightarrow> (Some (NoDevice e), st)
      | Inr profileName \<Rightarrow>
          (case md_GetProfileByName md profileName of
             Inl e \<Rightarrow> (Some (NoProfile profileName e), st)
           | Inr drs \<Rightarrow> (None, init_resources lib deviceName drs st)))"

definition UpdateDevice :: "golib \<Rightarrow> ('e, 'f) metadata_scheme \<Rightarrow> string \<Rightarrow>
    'a config_state_scheme \<Rightarrow> 'e device_error option \<times> 'a config_state_scheme" where
  "UpdateDevice lib md deviceName st =
     (case md_GetDeviceByName md deviceName of
        Inl e \<Rightarrow> (Some (NoDevice e), st)
      | Inr profileName \<Rightarrow>
          (case md_GetProfileByName md profileName of
             Inl e \<Rightarrow> (Some (NoProfile profileName e), st)
           | Inr drs \<Rightarrow> (None, init_resources lib deviceName drs st)))"

definition RemoveDevice :: "string \<Rightarrow> 'a config_state_scheme \<Rightarrow>
    unit device_error option \<times> 'a config_state_scheme" where
  "RemoveDevice deviceName st =
     (case DeleteDeviceValues deviceName st of
        (Some e, st') \<Rightarrow> (Some (RemoveFailed e), st')
      | (None, st') \<Rightarrow> (None, DeleteSensorIDMappingsByDevice deviceName st'))"

definition ValidateDevice :: "'d \<Rightarrow> string option" where
  "ValidateDevice dev = None"

definition Discover :: "string option" where
  "Discover = Some ''driver's Discover function isn't implemented''"

text \<open>Closing a closed channel panics.\<close>

definition Stop :: "bool \<Rightarrow> 'a config_state_scheme \<Rightarrow> 'a config_state_scheme outcome" where
  "Stop force st = (if WriteChan_closed st then Panic else Done (st\<lparr>WriteChan_closed := True\<rparr>))"

section \<open>Reports\<close>

text \<open>\<open>order\<close> is the order in which the range statement visits the map.\<close>

fun report_values :: "u64 \<Rightarrow> gvalue gomap \<Rightarrow> CommandValue list" where
  "report_values origin [] = []"
| "report_values origin ((name, val) # order) =
     (case (case val of
          VInt32 _ \<Rightarrow> Some (NewCommandValue name ''Int32'' val)
        | VInt64 _ \<Rightarrow> Some (NewCommandValue name ''Int64'' val)
        | VFloat32 _ \<Rightarrow> Some (NewCommandValue name ''Float32'' val)
        | VFloat64 _ \<Rightarrow> Some (NewCommandValue name ''Float64'' val)
        | VString _ \<Rightarrow> Some (NewCommandValue name ''String'' val)
        | _ \<Rightarrow> None) of
        Some (Inr cv) \<Rightarrow> cv\<lparr>cv_Origin := origin\<rparr> # report_values origin order
      | _ \<Rightarrow> report_values origin order)"

definition AsyncReporting :: "(gvalue gomap \<Rightarrow> gvalue gomap) \<Rightarrow> string \<Rightarrow> string \<Rightarrow> gvalue gomap \<Rightarrow>
    'a driver_state_scheme \<Rightarrow> 'a driver_state_scheme outcome" where
  "AsyncReporting order deviceName sourceName vals st =
     (if length vals = 0 then Done st
      else let cvs = report_values (of_int (clock st)) (order vals) in
        if length cvs = 0 then Done st
        else if length (asyncCh st) < async_room st
        then Done (st\<lparr>asyncCh := asyncCh st @
          [\<lparr>av_DeviceName = deviceName, av_SourceName = sourceName, av_CommandValues = cvs\<rparr>]\<rparr>)
        else Blocked)"

section \<open>Lemmas\<close>

definition module_id :: bytes where
  "module_id = [0x23, 0x8A, 0x08, 0x41, 0xD8, 0x28]"

lemma command_target_eq:
  "command_target d st =
     (case GetDeviceValue d ''eid'' st of
        None \<Rightarrow> Inl (EIDNotInitialised d)
      | Some v \<Rightarrow> Inr (module_id, case v of VString s \<Rightarrow> s | _ \<Rightarrow> []))"
  by (simp add: command_target_def eid_constant module_id_def go_copy_def del: hex_DecodeString.simps
      split: option.splits)

text \<open>The frame each write request stands for; \<open>now\<close> is the time in seconds.\<close>

definition command_frames :: "u32 \<Rightarrow> (string \<times> bytes) list" where
  "command_frames now =
     [(''Time_Parameter_Query'', with_crc (module_id @ [head_byte 0 0 4, ctrl_byte 4 0] @ le32_put 0)),
      (''Time_Parameter_Set'', with_crc (module_id @ [head_byte 0 0 4, ctrl_byte 4 1] @ le32_put now)),
      (''Reset_Set'', BuildResetRequest module_id),
      (''ID_Query'', with_crc (module_id @ [head_byte 0 0 4, ctrl_byte 5 0] @ replicate 6 0)),
      (''General_Parameter_Query'', BuildParameterQueryFrame module_id),
      (''Alarm_Parameter_Query'', BuildAlarmParameterQueryFrame module_id),
      (''Monitoring_Data_Query'', BuildMonitoringDataQueryFrame module_id),
      (''topologyDiagramQuery'', BuildGeneralParamQueryFrame module_id 0x0800)]"

definition requested_frame :: "u32 \<Rightarrow> CommandRequest \<times> CommandValue \<Rightarrow> bytes option" where
  "requested_frame now r =
     (if Int8Value (snd r) = 1 then map_of (command_frames now) (cr_DeviceResourceName (fst r)) else None)"

lemmas handler_defs = handleTimeParameterSet_def handleTimeParameterQuery_def handleResetCommand_def
  handleIdQuery_def handleIdMoniDataQuery_def handleIdAlarmParaQuery_def handleGeneParaQuery_def
  handleRouterParameterQuery_def

text \<open>What a handler does with its frame.\<close>

definition command_effect :: "string \<Rightarrow> bytes \<Rightarrow> 'a gateway_state_scheme \<Rightarrow>
    command_error option \<times> 'a gateway_state_scheme" where
  "command_effect d f st =
     (if GetDeviceValue d ''eid'' st = None then (Some (EIDNotInitialised d), st)
      else (None, st\<lparr>published := published st @ [downlink f (clock st)]\<rparr>))"

lemma handler_effect:
  assumes "map_of (command_frames (of_int (clock st div 1000000000))) name = Some f"
    and "map_of write_handlers name = Some h"
  shows "h d st = command_effect d f st"
proof -
  have ne: "with_crc bs \<noteq> []" for bs by (simp add: with_crc_def be16_put_def)
  show ?thesis
    using assms
    by (simp add: command_frames_def write_handlers_def split: if_splits;
      hypsubst_thin)
      (simp_all add: command_effect_def command_target_eq handler_defs ne
        BuildTimeParamFrame_def BuildSensorIDFrame_def BuildResetRequest_def BuildParameterQueryFrame_def
        BuildAlarmParameterQueryFrame_def BuildMonitoringDataQueryFrame_def BuildGeneralParamQueryFrame_def
        packetTypeControl_def ctrl_byte_def SendFrame_publishes split: option.splits)
qed

lemma run_handlers_absent:
  "name \<notin> fst ` set hs \<or> v \<noteq> 1 \<Longrightarrow> run_handlers hs d name v st = (None, st)"
  by (induction hs) auto

lemma run_handlers_distinct:
  "distinct (map fst hs) \<Longrightarrow> run_handlers hs d name v st =
    (case (if v = 1 then map_of hs name else None) of None \<Rightarrow> (None, st) | Some h \<Rightarrow> h d st)"
proof (induction hs)
  case (Cons h hs)
  then show ?case
    by (cases h) (auto simp: run_handlers_absent split: prod.splits option.splits)
qed simp

lemma command_names: "map fst write_handlers = map fst (command_frames now)"
  by (simp add: write_handlers_def command_frames_def)

lemma run_write_handlers:
  assumes r_def: "r = (if v = 1 then map_of (command_frames (of_int (clock st div 1000000000))) name else None)"
  shows "run_handlers write_handlers d name v st =
    (case r of None \<Rightarrow> (None, st) | Some f \<Rightarrow> command_effect d f st)"
proof -
  let ?now = "of_int (clock st div 1000000000)"
  have d: "distinct (map fst write_handlers)" by (simp add: write_handlers_def)
  have "map_of write_handlers name = None \<longleftrightarrow> map_of (command_frames ?now) name = None"
    by (metis command_names list.set_map map_of_eq_None_iff)
  then show ?thesis
    unfolding run_handlers_distinct [OF d] r_def
    by (auto split: option.splits dest: handler_effect)
qed

lemma write_requests_eq:
  "write_requests d rs st =
    (let frames = List.map_filter (requested_frame (of_int (clock st div 1000000000))) rs in
     if GetDeviceValue d ''eid'' st = None \<and> frames \<noteq> [] then (Some (EIDNotInitialised d), st)
     else (None, st\<lparr>published := published st @ map (\<lambda>f. downlink f (clock st)) frames\<rparr>))"
proof (induction rs arbitrary: st)
  case Nil
  then show ?case by (simp add: List.map_filter_def)
next
  case (Cons r rs)
  then show ?case
    by (cases r) (auto simp: run_write_handlers requested_frame_def command_effect_def List.map_filter_def Let_def
        split: option.splits)
qed

section \<open>Properties of the commands\<close>

text \<open>C18: a write sends, in the order of its requests, exactly
  one downlink message with the prescribed control frame for every request that names a
  command and carries the Int8 value 1; other requests are accepted without effect. When the
  device has no EID value the first command fails and nothing is sent at all, and so it is
  when requests and parameters differ in number.\<close>

theorem HandleWriteCommands_publishes:
  "HandleWriteCommands d reqs params st =
    (let frames = List.map_filter (requested_frame (of_int (clock st div 1000000000))) (zip reqs params) in
     if length reqs \<noteq> length params then (Some (CountMismatch (length reqs) (length params)), st)
     else if GetDeviceValue d ''eid'' st = None \<and> frames \<noteq> [] then (Some (EIDNotInitialised d), st)
     else (None, st\<lparr>published := published st @ map (\<lambda>f. downlink f (clock st)) frames\<rparr>))"
  by (simp add: HandleWriteCommands_def write_requests_eq Let_def)

lemma NewCommandValue_topology:
  "NewCommandValue n ''Object'' (VTopo ns) =
    Inr \<lparr>cv_DeviceResourceName = n, cv_Type = ''Object'', cv_Value = VTopo ns, cv_Origin = 0\<rparr>"
  by (simp add: NewCommandValue_def validate_def value_types_def)

lemma makeCV_Inr:
  assumes "makeCV lib now name vt v = Inr cv"
  shows "coerceTo lib v vt = Inr (cv_Value cv) \<and> has_type (cv_Value cv) vt \<and>
    cv = \<lparr>cv_DeviceResourceName = name, cv_Type = vt, cv_Value = cv_Value cv, cv_Origin = of_int now\<rparr>"
  using assms coerced_type [of lib v vt]
  by (auto simp: makeCV_def NewCommandValue_def validate_def split: sum.splits option.splits if_splits)

lemma GetDeviceValues_get:
  assumes "GetDeviceValues d st = Some vals" "wf_values st"
  shows "mget vals r = GetDeviceValue d r st"
proof -
  obtain m where m: "mget (ValuesMap st) d = Some m"
    using assms(1) by (auto simp: GetDeviceValues_def split: option.splits)
  then have "wf_map m" using wf_device_values [OF assms(2), of d] by (simp add: device_values_def)
  then show ?thesis using assms(1) m by (auto simp: GetDeviceValues_def GetDeviceValue_def copy_map_wf)
qed

text \<open>What a read of one resource may answer.\<close>

definition answers :: "golib \<Rightarrow> string \<Rightarrow> 'a gateway_state_scheme \<Rightarrow> CommandRequest \<Rightarrow> CommandValue \<Rightarrow> bool" where
  "answers lib d st req cv \<longleftrightarrow>
     cv_DeviceResourceName cv = cr_DeviceResourceName req \<and> has_type (cv_Value cv) (cv_Type cv) \<and>
     (if cr_DeviceResourceName req = ''topologyDiagram''
      then cv_Type cv = ''Object'' \<and> cv_Value cv = VTopo (TopoList st)
      else cv_Type cv = cr_Type req \<and> cv_Origin cv = of_int (clock st) \<and>
        (\<exists>v. GetDeviceValue d (cr_DeviceResourceName req) st = Some v \<and>
             coerceTo lib v (cr_Type req) = Inr (cv_Value cv)))"

lemma read_request_answers:
  assumes "GetDeviceValues d st = Some vals" "wf_values st" "read_request lib d vals st req = Inr cv"
  shows "answers lib d st req cv"
proof (cases "cr_DeviceResourceName req = ''topologyDiagram''")
  case True
  then show ?thesis
    using assms(3) by (auto simp: read_request_def NewCommandValue_topology answers_def GetTopoList_def)
next
  case False
  then obtain v where v: "mget vals (cr_DeviceResourceName req) = Some v"
    "makeCV lib (clock st) (cr_DeviceResourceName req) (cr_Type req) v = Inr cv"
    using assms(3) by (auto simp: read_request_def Let_def split: option.splits sum.splits)
  from makeCV_Inr [OF v(2)] show ?thesis
    using False v(1) GetDeviceValues_get [OF assms(1,2), of "cr_DeviceResourceName req"]
    by (cases cv) (simp add: answers_def)
qed

lemma read_requests_answers:
  assumes "GetDeviceValues d st = Some vals" "wf_values st"
  shows "read_requests lib d vals reqs st = Inr cvs \<Longrightarrow> list_all2 (answers lib d st) reqs cvs"
  by (induction reqs arbitrary: cvs) (auto intro: read_request_answers [OF assms] split: sum.splits)


definition demo_driver :: driver_state where
  "demo_driver = shard_state.extend
     (SetDeviceValue ''Data-Demo'' ''eid'' (VString ''238A08262319'') demo_shards) \<lparr>asyncCh = [], async_room = 16\<rparr>"

lemma demo_driver_simps [simp]:
  "ValuesMap demo_driver = [(''Data-Demo'', [(''eid'', VString ''238A08262319'')])]"
  "asyncCh demo_driver = []" "async_room demo_driver = 16" "WriteChan_closed demo_driver = False"
  "SensorIDToDeviceName demo_driver = [(''238A08262319'', ''Data-Demo'')]"
  "clock demo_driver = 0" "WriteChan demo_driver = []" "SinkRawDataCh demo_driver = []"
  "sduCaches demo_driver = []" "armed demo_driver = []" "firing demo_driver = []" "SDUCh demo_driver = []"
  by (simp_all add: demo_driver_def shard_state.defs demo_shards_def gateway_state.defs demo_gateway_def
      config_state.defs initial_config_def SetDeviceValue_def ensure_device_def device_values_def)

lemma demo_driver_wf: "wf_values demo_driver"
  by (simp add: wf_values_def wf_map_def)

lemma demo_driver_eid: "GetDeviceValue ''Data-Demo'' ''eid'' demo_driver = Some (VString ''238A08262319'')"
  by (simp add: GetDeviceValue_def)


section \<open>Properties of the device callbacks\<close>

text \<open>The value a profile gives to a resource: the converted default of its last entry.\<close>

definition profile_default :: "golib \<Rightarrow> ProfileResource list \<Rightarrow> string \<Rightarrow> gvalue option" where
  "profile_default lib drs r =
     map_of (rev (map (\<lambda>dr. (pr_Name dr, parseDefaultValue lib (pr_DefaultValue dr) (pr_ValueType dr))) drs)) r"

lemma init_resources_get:
  "GetDeviceValue d' r (init_resources lib d drs st) =
    (case profile_default lib drs r of
       Some v \<Rightarrow> if d' = d then Some v else GetDeviceValue d' r st
     | None \<Rightarrow> GetDeviceValue d' r st)"
  by (induction drs rule: rev_induct)
    (auto simp: init_resources_def profile_default_def DeviceInit_is_Set SetDeviceValue_get split: option.splits)

lemma init_resources_frame [simp]:
  "SensorIDToDeviceName (init_resources lib d drs st) = SensorIDToDeviceName st"
  "TopoList (init_resources lib d drs st) = TopoList st"
  "config_state.more (init_resources lib d drs st) = config_state.more st"
  "WriteChan (init_resources lib d drs st) = WriteChan st"
  by (induction drs rule: rev_induct) (simp_all add: init_resources_def DeviceInit_is_Set SetDeviceValue_def Let_def)

lemma init_resources_wf: "wf_values st \<Longrightarrow> wf_values (init_resources lib d drs st)"
  by (induction drs rule: rev_induct) (simp_all add: init_resources_def DeviceInit_is_Set SetDeviceValue_wf)

text \<open>C33: adding or updating a device whose metadata cannot be read changes
  nothing; otherwise every resource of its profile gets its converted default, the last entry
  of a name counting, resources outside the profile and other devices keep their values. The
  EID directory is not refreshed: the uplink parser finds exactly the devices it found
  before, so the frames of a device added at run time are still ignored.\<close>

theorem AddDevice_correct:
  "AddDevice lib md d st = UpdateDevice lib md d st \<and>
   (fst (AddDevice lib md d st) \<noteq> None \<longrightarrow> snd (AddDevice lib md d st) = st) \<and>
   (\<forall>e. LookupDeviceName e (snd (AddDevice lib md d st)) = LookupDeviceName e st) \<and>
   (md_GetDeviceByName md d = Inr p \<and> md_GetProfileByName md p = Inr drs \<longrightarrow>
      fst (AddDevice lib md d st) = None \<and>
      (\<forall>d' r. GetDeviceValue d' r (snd (AddDevice lib md d st)) =
         (case profile_default lib drs r of
            Some v \<Rightarrow> if d' = d then Some v else GetDeviceValue d' r st
          | None \<Rightarrow> GetDeviceValue d' r st)))"
  by (auto simp: AddDevice_def UpdateDevice_def init_resources_get LookupDeviceName_def split: sum.splits)

definition demo_metadata :: "unit metadata" where
  "demo_metadata = \<lparr>md_GetDeviceByName = (\<lambda>_. Inr ''Meter''),
     md_GetProfileByName = (\<lambda>_. Inr [\<lparr>pr_Name = ''period'', pr_DefaultValue = ''60'', pr_ValueType = ''Uint16''\<rparr>])\<rparr>"

theorem AddDevice_correct_witness:
  "GetDeviceValue ''D1'' ''period'' (snd (AddDevice demo_lib demo_metadata ''D1'' demo_driver)) = Some (VUint16 60)"
proof -
  let ?drs = "[\<lparr>pr_Name = ''period'', pr_DefaultValue = ''60'', pr_ValueType = ''Uint16''\<rparr>]"
  have m: "md_GetDeviceByName demo_metadata ''D1'' = Inr ''Meter'' \<and>
      md_GetProfileByName demo_metadata ''Meter'' = Inr ?drs"
    by (simp add: demo_metadata_def)
  have p: "profile_default demo_lib ?drs ''period'' = Some (VUint16 60)"
    by (simp add: profile_default_def parseDefaultValue_def ParseUint_def digit_val_def)
  show ?thesis
    using AddDevice_correct [THEN conjunct2, THEN conjunct2, THEN conjunct2, THEN mp, OF m, THEN conjunct2,
        THEN spec, of "''D1''" demo_lib demo_driver, THEN spec, of "''period''"] p by simp
qed

lemma RemoveDevice_unknown:
  "d \<notin> known_devices st \<Longrightarrow> RemoveDevice d st = (Some (RemoveFailed (NoDeviceValues d)), st)"
  by (simp add: RemoveDevice_def DeleteDeviceValues_def known_devices_iff)

lemma RemoveDevice_known:
  "d \<in> known_devices st \<Longrightarrow>
   RemoveDevice d st = (None, DeleteSensorIDMappingsByDevice d (st\<lparr>ValuesMap := mdel d (ValuesMap st)\<rparr>))"
  by (auto simp: RemoveDevice_def DeleteDeviceValues_def known_devices_iff)

lemma RemoveDevice_get:
  "d \<in> known_devices st \<Longrightarrow>
   GetDeviceValue d' r (snd (RemoveDevice d st)) = (if d' = d then None else GetDeviceValue d' r st)"
  by (auto simp: RemoveDevice_known GetDeviceValue_def DeleteSensorIDMappingsByDevice_def mget_del)

lemma RemoveDevice_lookup:
  assumes "d \<in> known_devices st" "wf_eids st"
  shows "LookupDeviceName e (snd (RemoveDevice d st)) =
    (if LookupDeviceName e st = Some d then None else LookupDeviceName e st)"
proof -
  have "wf_eids (st\<lparr>ValuesMap := mdel d (ValuesMap st)\<rparr>)" using assms(2) by (simp add: wf_eids_def)
  from DeleteSensorIDMappings_lookup [OF this, of e d] show ?thesis
    using assms(1) by (simp add: RemoveDevice_known LookupDeviceName_def)
qed

text \<open>C34: removing an unknown device is an error that changes nothing, its
  entries in the EID directory included. Removing a known device forgets all its values and
  every EID that led to it, and keeps the values and the EIDs of all other devices.\<close>

theorem RemoveDevice_correct:
  assumes "wf_values st" "wf_eids st"
  shows "(d \<notin> known_devices st \<longrightarrow> RemoveDevice d st = (Some (RemoveFailed (NoDeviceValues d)), st)) \<and>
    (d \<in> known_devices st \<longrightarrow>
      fst (RemoveDevice d st) = None \<and>
      known_devices (snd (RemoveDevice d st)) = known_devices st - {d} \<and>
      (\<forall>d' r. GetDeviceValue d' r (snd (RemoveDevice d st)) = (if d' = d then None else GetDeviceValue d' r st)) \<and>
      (\<forall>e. LookupDeviceName e (snd (RemoveDevice d st)) =
         (if LookupDeviceName e st = Some d then None else LookupDeviceName e st)))"
proof (intro conjI impI allI)
  assume d: "d \<in> known_devices st"
  show "known_devices (snd (RemoveDevice d st)) = known_devices st - {d}"
    by (auto simp: RemoveDevice_known [OF d] known_devices_iff DeleteSensorIDMappingsByDevice_def mget_del
        split: if_splits)
  show "fst (RemoveDevice d st) = None" by (simp add: RemoveDevice_known [OF d])
qed (rule RemoveDevice_unknown, assumption, simp_all only: RemoveDevice_get RemoveDevice_lookup [OF _ assms(2)])

lemma demo_driver_eids: "wf_eids demo_driver"
  by (simp add: wf_eids_def wf_map_def)

theorem RemoveDevice_correct_witness:
  "LookupDeviceName ''238A08262319'' (snd (RemoveDevice ''Data-Demo'' demo_driver)) = None"
  using RemoveDevice_correct [OF demo_driver_wf demo_driver_eids, of "''Data-Demo''"]
  by (simp add: known_devices_iff LookupDeviceName_def)

section \<open>Reports of uplink frames\<close>

definition report_type :: "gvalue \<Rightarrow> string option" where
  "report_type v =
     (case v of
        VInt32 _ \<Rightarrow> Some ''Int32'' | VInt64 _ \<Rightarrow> Some ''Int64'' | VFloat32 _ \<Rightarrow> Some ''Float32''
      | VFloat64 _ \<Rightarrow> Some ''Float64'' | VString _ \<Rightarrow> Some ''String'' | _ \<Rightarrow> None)"

definition report_of :: "u64 \<Rightarrow> string \<times> gvalue \<Rightarrow> CommandValue option" where
  "report_of origin nv = map_option
     (\<lambda>t. \<lparr>cv_DeviceResourceName = fst nv, cv_Type = t, cv_Value = snd nv, cv_Origin = origin\<rparr>)
     (report_type (snd nv))"

lemma report_values_eq: "report_values origin vs = List.map_filter (report_of origin) vs"
proof (induction vs)
  case (Cons nv vs)
  then show ?case
    by (cases nv; cases "snd nv")
      (simp_all add: List.map_filter_def report_of_def report_type_def NewCommandValue_def validate_def value_types_def)
qed (simp add: List.map_filter_def)

lemma AsyncReporting_eq:
  assumes "mset (order vals) = mset vals"
  shows "AsyncReporting order d src vals st =
    (let cvs = List.map_filter (report_of (of_int (clock st))) (order vals) in
     if cvs = [] then Done st
     else if length (asyncCh st) < async_room st
     then Done (st\<lparr>asyncCh := asyncCh st @ [\<lparr>av_DeviceName = d, av_SourceName = src, av_CommandValues = cvs\<rparr>]\<rparr>)
     else Blocked)"
proof (cases "vals = []")
  case True
  then have "order vals = []" using assms by simp
  then show ?thesis using True by (simp add: AsyncReporting_def List.map_filter_def)
next
  case False
  then show ?thesis by (simp add: AsyncReporting_def report_values_eq Let_def)
qed

text \<open>C1: the path from the broker to the SDK. An intact monitoring or alarm
  frame of a known sensor that arrives as hexadecimal text in an MQTT message is queued, and
  when the parser takes it the driver hands the SDK at most one report of the sensor's
  device, which carries exactly the last values of the counted items whose Go type the
  reporting code knows (int32, int64, float32, float64, string), each with its own type name
  and the time of the frame, in whatever order the map is visited. Values of any other type
  are stored but never reported; with a full SDK channel the parser waits.\<close>

theorem uplink_reported:
  assumes frame: "fr = sid @ head # enc_items le16_put its @ be16_put (CRC16 (sid @ head # enc_items le16_put its))"
    "length sid = 6" "list_all wf_item its" "drop_bit 3 head AND 0x1 = 0" "head AND 0x07 \<in> {0, 2}"
    and device: "LookupDeviceName (hex_upper sid) st = Some d"
    and msg: "jl_envelope jl msg = Some env" "payloadBytes jl (em_Payload env) = Some pb" "pb \<noteq> []"
    "jl_sink jl pb = Some m" "sp_Data m = hex_upper fr" "SinkRawDataCh st = []"
    and order: "\<And>vs. mset (order vs) = mset vs"
  shows "\<exists>slice cvs. SinkRawDataCh (sinkMsgHandler jl sp msg st) = [slice] \<and> vis slice = fr \<and>
    (\<forall>n v. (\<exists>cv \<in> set cvs. cv_DeviceResourceName cv = n \<and> cv_Value cv = v) \<longleftrightarrow>
       last_value (decoded (take (unat (drop_bit 4 head)) its)) n = Some v \<and> report_type v \<noteq> None) \<and>
    (\<forall>cv \<in> set cvs. report_type (cv_Value cv) = Some (cv_Type cv) \<and> cv_Origin cv = of_int (clock st)) \<and>
    (if cvs = [] \<or> length (asyncCh st) < async_room st
     then \<exists>st'. parse_frame (Some (AsyncReporting order)) slice st = Done st' \<and>
       asyncCh st' = asyncCh st @ (if cvs = [] then []
         else [\<lparr>av_DeviceName = d, av_SourceName = ''AsyncReporting'', av_CommandValues = cvs\<rparr>])
     else parse_frame (Some (AsyncReporting order)) slice st = Blocked)"
proof -
  have "fr \<noteq> []" using frame(1) by simp
  then have q: "SinkRawDataCh (sinkMsgHandler jl sp msg st) = [\<lparr>vis = fr, spare = sp (hex_upper fr)\<rparr>]"
    using msg by (simp add: sinkMsgHandler_def decodeHexFlexible_upper raw_capacity_def)
  let ?slice = "\<lparr>vis = fr, spare = sp (hex_upper fr)\<rparr>"
  let ?its = "take (unat (drop_bit 4 head)) its"
  have "vis ?slice = sid @ head # enc_items le16_put its @ be16_put (CRC16 (sid @ head # enc_items le16_put its))"
    using frame(1) by simp
  from business_frame_effect [OF this frame(2-4) refl frame(5) device]
  obtain rv st' where eff: "business_effect d ?its (status_frame (drop_bit 4 head) ((head AND 7) + 1) 0xFF) st rv st'"
    and run: "\<And>cb. parse_frame cb ?slice st =
      (case cb of None \<Rightarrow> Done st' | Some f \<Rightarrow> if rv = [] then Done st' else f d ''AsyncReporting'' rv st')"
    by blast
  have rv: "wf_map rv" "mget rv n = last_value (decoded ?its) n" for n
    using eff by (simp_all add: business_effect_def)
  have same: "asyncCh st' = asyncCh st" "async_room st' = async_room st" "clock st' = clock st"
    using eff by (cases st; cases st'; simp add: business_effect_def)+
  let ?cvs = "List.map_filter (report_of (of_int (clock st))) (order rv)"
  have set: "set (order rv) = set rv" by (metis order set_mset_mset)
  have cvs: "cv \<in> set ?cvs \<longleftrightarrow> (\<exists>nv \<in> set rv. report_of (of_int (clock st)) nv = Some cv)" for cv
    by (force simp: List.map_filter_def set)
  have "(\<exists>cv \<in> set ?cvs. cv_DeviceResourceName cv = n \<and> cv_Value cv = v) \<longleftrightarrow>
      last_value (decoded ?its) n = Some v \<and> report_type v \<noteq> None" for n v
    unfolding Bex_def cvs rv(2) [symmetric] wf_map_in_iff [OF rv(1), symmetric]
    by (auto simp: report_of_def intro!: exI [of _ "\<lparr>cv_DeviceResourceName = n, cv_Type = the (report_type v),
        cv_Value = v, cv_Origin = of_int (clock st)\<rparr>"] bexI [of _ "(n, v)"])
  moreover have "report_type (cv_Value cv) = Some (cv_Type cv) \<and> cv_Origin cv = of_int (clock st)"
    if "cv \<in> set ?cvs" for cv
    using that unfolding cvs by (auto simp: report_of_def)
  moreover have "parse_frame (Some (AsyncReporting order)) ?slice st =
      AsyncReporting order d ''AsyncReporting'' rv st'"
    by (simp add: run AsyncReporting_def)
  ultimately show ?thesis
    using q same
    by (intro exI [of _ ?slice] exI [of _ ?cvs]) (simp add: AsyncReporting_eq [OF order] Let_def)
qed

definition demo_link :: "bytes \<Rightarrow> unit jsonlib" where
  "demo_link fr = demo_json\<lparr>jl_sink := (\<lambda>_. Some \<lparr>sp_Type = ''sink'', sp_Eid = [], sp_Timestamp = 0,
     sp_Datalen = int (length fr), sp_Data = hex_upper fr\<rparr>)\<rparr>"

theorem uplink_reported_witness:
  "\<exists>fr slice st' cvs. SinkRawDataCh (sinkMsgHandler (demo_link fr) (\<lambda>_. []) [0x7B] demo_driver) = [slice] \<and>
    parse_frame (Some (AsyncReporting (\<lambda>vs. vs))) slice demo_driver = Done st' \<and>
    asyncCh st' = [\<lparr>av_DeviceName = ''Data-Demo'', av_SourceName = ''AsyncReporting'', av_CommandValues = cvs\<rparr>] \<and>
    (\<exists>cv \<in> set cvs. cv_DeviceResourceName cv = ''Temperature'' \<and> cv_Value cv = VFloat32 0x41C80000)"
proof -
  obtain its sid head fr where its: "its = [\<lparr>wi_type = 5, wi_flag = 0, wi_data = le32_put 0x41C80000\<rparr>]"
    and sid: "sid = [0x23, 0x8A, 0x08, 0x26, 0x23, 0x19 :: byte]" and head: "head = (0x10 :: byte)"
    and fr: "fr = sid @ head # enc_items le16_put its @ be16_put (CRC16 (sid @ head # enc_items le16_put its))"
    by blast
  have parts: "length sid = 6" "list_all wf_item its" "drop_bit 3 head AND 0x1 = 0" "head AND 0x07 \<in> {0, 2}"
    "LookupDeviceName (hex_upper sid) demo_driver = Some ''Data-Demo''"
    by (simp_all add: its sid head wf_item_def LookupDeviceName_def hex_upper_def hex_upper_digits_def)
  have "decode 5 (le32_put 0x41C80000) = Some (''Temperature'', VFloat32 0x41C80000)"
    by (simp add: decode_def Temperature_lookup parseFloat32_def)
  then have lv: "last_value (decoded (take (unat (drop_bit 4 head)) its)) ''Temperature'' = Some (VFloat32 0x41C80000)"
    by (simp add: its head decoded_def List.map_filter_def last_value_def)
  obtain env where env: "jl_envelope (demo_link fr) [0x7B] = Some env" "em_Payload env = PRaw [0x7B]"
    by (simp add: demo_link_def demo_json_def)
  have pb: "payloadBytes (demo_link fr) (em_Payload env) = Some [0x7B]" by (simp add: env payloadBytes_def)
  obtain m where m: "jl_sink (demo_link fr) [0x7B] = Some m" "sp_Data m = hex_upper fr"
    by (simp add: demo_link_def)
  obtain slice cvs where u: "SinkRawDataCh (sinkMsgHandler (demo_link fr) (\<lambda>_. []) [0x7B] demo_driver) = [slice]"
    "\<forall>n v. (\<exists>cv \<in> set cvs. cv_DeviceResourceName cv = n \<and> cv_Value cv = v) \<longleftrightarrow>
       last_value (decoded (take (unat (drop_bit 4 head)) its)) n = Some v \<and> report_type v \<noteq> None"
    "if cvs = [] \<or> length (asyncCh demo_driver) < async_room demo_driver
     then \<exists>st'. parse_frame (Some (AsyncReporting (\<lambda>vs. vs))) slice demo_driver = Done st' \<and>
       asyncCh st' = asyncCh demo_driver @ (if cvs = [] then []
         else [\<lparr>av_DeviceName = ''Data-Demo'', av_SourceName = ''AsyncReporting'', av_CommandValues = cvs\<rparr>])
     else parse_frame (Some (AsyncReporting (\<lambda>vs. vs))) slice demo_driver = Blocked"
    using uplink_reported [OF fr parts env(1) pb _ m demo_driver_simps(8), where order = "\<lambda>vs. vs" and sp = "\<lambda>_. []"]
    by blast
  have cv: "\<exists>cv \<in> set cvs. cv_DeviceResourceName cv = ''Temperature'' \<and> cv_Value cv = VFloat32 0x41C80000"
    unfolding u(2) [rule_format] lv by (simp add: report_type_def)
  then have "cvs \<noteq> []" by auto
  then obtain st' where "parse_frame (Some (AsyncReporting (\<lambda>vs. vs))) slice demo_driver = Done st'"
    "asyncCh st' = [\<lparr>av_DeviceName = ''Data-Demo'', av_SourceName = ''AsyncReporting'', av_CommandValues = cvs\<rparr>]"
    using u(3) by auto
  with u(1) cv show ?thesis by blast
qed

end
