(* ===== verification/Monitor.thy ===== *)
theory Monitor
  imports Driver
begin

text \<open>
  The periodic tasks of the driver: the health check of the devices
  (\<open>driver/status_check.go\<close>) and the polling listener (\<open>driver/listener.go\<close>). Both are one
  function per tick of their ticker.
\<close>

section \<open>The health check\<close>

text \<open>
  One device of a check that started at \<open>now\<close> nanoseconds. The arithmetic is Go's signed
  64-bit arithmetic.
\<close>

definition check_device :: "int \<Rightarrow> string \<Rightarrow> 'a config_state_scheme \<Rightarrow> 'a config_state_scheme" where
  "check_device now dev st =
     (case (GetDeviceValue dev ''lastDataTimestamp'' st, GetDeviceValue dev ''period'' st) of
        (Some rawTs, Some rawPr) \<Rightarrow>
          (case (rawTs, rawPr) of
             (VInt64 lastTs, VUint32 period) \<Rightarrow>
               (let deadline = ucast period * 2 * 1000000000 :: u64;
                    newState = (if sint deadline < sint (of_int now - lastTs) then 1 else 0)
                in SetDeviceValue dev ''state'' (VUint8 newState) st)
           | _ \<Rightarrow> st)
      | _ \<Rightarrow> st)"

text \<open>\<open>order\<close> is the order in which the range statement visits the devices.\<close>

definition health_check :: "string list \<Rightarrow> 'a gateway_state_scheme \<Rightarrow> 'a gateway_state_scheme" where
  "health_check order st = fold (check_device (clock st)) order st"

section \<open>The listener\<close>

text \<open>
  Comparison of interface values: equal dynamic types and equal values; floats compare as
  numbers, and two values of one uncomparable type make the comparison panic.
\<close>

definition flt_eq :: "flt \<Rightarrow> flt \<Rightarrow> bool" where
  "flt_eq x y \<longleftrightarrow>
     (case (x, y) of
        (NotANumber, _) \<Rightarrow> False
      | (Finite s m e, Finite s' m' e') \<Rightarrow> m = 0 \<and> m' = 0 \<or> x = y
      | _ \<Rightarrow> x = y)"

definition same_uncomparable :: "gvalue \<Rightarrow> gvalue \<Rightarrow> bool" where
  "same_uncomparable a b \<longleftrightarrow>
     (case a of
        VBytes _ \<Rightarrow> (case b of VBytes _ \<Rightarrow> True | _ \<Rightarrow> False)
      | VFloat32s _ \<Rightarrow> (case b of VFloat32s _ \<Rightarrow> True | _ \<Rightarrow> False)
      | VUint16s _ \<Rightarrow> (case b of VUint16s _ \<Rightarrow> True | _ \<Rightarrow> False)
      | VTopo _ \<Rightarrow> (case b of VTopo _ \<Rightarrow> True | _ \<Rightarrow> False)
      | VObject _ \<Rightarrow> (case b of VObject _ \<Rightarrow> True | _ \<Rightarrow> False)
      | _ \<Rightarrow> False)"

definition iface_eq :: "gvalue \<Rightarrow> gvalue \<Rightarrow> bool outcome" where
  "iface_eq a b =
     (if same_uncomparable a b then Panic
      else Done (case (a, b) of
          (VFloat32 x, VFloat32 y) \<Rightarrow> flt_eq (decode32 x) (decode32 y)
        | (VFloat64 x, VFloat64 y) \<Rightarrow> flt_eq (decode64 x) (decode64 y)
        | _ \<Rightarrow> a = b))"

definition listener_tick :: "string \<Rightarrow> string \<Rightarrow> (gvalue \<Rightarrow> 'a config_state_scheme \<Rightarrow> 'a config_state_scheme outcome) \<Rightarrow>
    gvalue \<times> 'a config_state_scheme \<Rightarrow> (gvalue \<times> 'a config_state_scheme) outcome" where
  "listener_tick deviceName resourceName handler s =
     (let (last, st) = s in
      case GetDeviceValues deviceName st of
        None \<Rightarrow> Done (last, st)
      | Some vals \<Rightarrow>
          (case mget vals resourceName of
             None \<Rightarrow> Done (last, st)
           | Some cur \<Rightarrow>
               obind (iface_eq cur last) (\<lambda>same.
                 if same then Done (last, st)
                 else obind (handler cur st) (\<lambda>st'.
                   Done (cur, SetDeviceValue deviceName resourceName (VInt 0) st')))))"

text \<open>The variable \<open>last\<close> starts as nil.\<close>

fun StartControlListener :: "string \<Rightarrow> string \<Rightarrow> (gvalue \<Rightarrow> 'a config_state_scheme \<Rightarrow> 'a config_state_scheme outcome) \<Rightarrow>
    nat \<Rightarrow> gvalue \<times> 'a config_state_scheme \<Rightarrow> (gvalue \<times> 'a config_state_scheme) outcome" where
  "StartControlListener deviceName resourceName handler 0 s = Done s"
| "StartControlListener deviceName resourceName handler (Suc ticks) s =
     obind (listener_tick deviceName resourceName handler s)
       (StartControlListener deviceName resourceName handler ticks)"

section \<open>Properties of the health check\<close>

text \<open>The state the check stores for a device, if it stores one, as integer arithmetic.\<close>

definition overdue :: "int \<Rightarrow> string \<Rightarrow> 'a config_state_scheme \<Rightarrow> bool option" where
  "overdue now dev st =
     (case (GetDeviceValue dev ''lastDataTimestamp'' st, GetDeviceValue dev ''period'' st) of
        (Some (VInt64 ts), Some (VUint32 p)) \<Rightarrow> Some (2 * 1000000000 * uint p < now - sint ts)
      | _ \<Rightarrow> None)"

text \<open>Times for which nanoseconds since 1970 and their differences fit 64 bits.\<close>

definition sane_times :: "int \<Rightarrow> 'a config_state_scheme \<Rightarrow> bool" where
  "sane_times now st \<longleftrightarrow> 0 \<le> now \<and> now < 2 ^ 63 \<and>
     (\<forall>d ts. GetDeviceValue d ''lastDataTimestamp'' st = Some (VInt64 ts) \<longrightarrow> 0 \<le> sint ts)"

lemma deadline_fits: "sint (2000000000 * ucast (p :: u32) :: u64) = 2000000000 * uint p"
proof -
  have b: "0 \<le> uint p" "uint p < 4294967296" using unsigned_less [of p, where ?'a = int] by simp_all
  have lo: "- (2 ^ 63) \<le> 2000000000 * uint p" by (rule order_trans [of _ 0]) simp_all
  have hi: "2000000000 * uint p < 2 ^ 63" using b by simp
  have w: "(2000000000 * ucast p :: u64) = of_int (2000000000 * uint p)" by simp
  show ?thesis unfolding w by (rule sint_of_int64 [OF lo hi])
qed

lemma elapsed_fits:
  "0 \<le> now \<Longrightarrow> now < 2 ^ 63 \<Longrightarrow> 0 \<le> sint ts \<Longrightarrow> sint (of_int now - ts :: u64) = now - sint ts"
  using sint_of_int64 [of "now - sint ts"] sint_lt [of ts] by simp

lemma check_device_eq:
  assumes "sane_times now st"
  shows "check_device now dev st =
    (case overdue now dev st of None \<Rightarrow> st
     | Some late \<Rightarrow> SetDeviceValue dev ''state'' (VUint8 (if late then 1 else 0)) st)"
proof -
  have "sint (of_int now - ts :: u64) = now - sint ts"
    if "GetDeviceValue dev ''lastDataTimestamp'' st = Some (VInt64 ts)" for ts
    using assms that elapsed_fits by (auto simp: sane_times_def)
  then show ?thesis
    by (auto simp: check_device_def overdue_def deadline_fits split: option.splits gvalue.splits)
qed

lemma overdue_same:
  assumes "\<And>d r. r \<noteq> ''state'' \<Longrightarrow> GetDeviceValue d r st' = GetDeviceValue d r st"
  shows "overdue now d st' = overdue now d st" "sane_times now st' = sane_times now st"
  using assms by (simp_all add: overdue_def sane_times_def)

lemma check_devices_get:
  assumes "sane_times now st"
  shows "GetDeviceValue d r (fold (check_device now) order st) =
    (case overdue now d st of
       Some late \<Rightarrow> if r = ''state'' \<and> d \<in> set order then Some (VUint8 (if late then 1 else 0))
         else GetDeviceValue d r st
     | None \<Rightarrow> GetDeviceValue d r st)"
proof (induction order arbitrary: d r rule: rev_induct)
  case (snoc dev order)
  let ?st = "fold (check_device now) order st"
  have "GetDeviceValue d r ?st = GetDeviceValue d r st" if "r \<noteq> ''state''" for d r
    using that by (simp add: snoc split: option.splits)
  note same = overdue_same [OF this]
  have "check_device now dev ?st = (case overdue now dev st of None \<Rightarrow> ?st
      | Some late \<Rightarrow> SetDeviceValue dev ''state'' (VUint8 (if late then 1 else 0)) ?st)"
    using check_device_eq [of now ?st dev] assms by (simp add: same)
  then show ?case
    by (auto simp: snoc SetDeviceValue_get split: option.splits)
qed (simp split: option.splits)

lemma unchecked_devices:
  assumes "\<And>d p. GetDeviceValue d ''period'' st \<noteq> Some (VUint32 p)"
  shows "fold (check_device now) order st = st"
proof -
  have "check_device now dev st = st" for dev
    using assms [of dev] by (auto simp: check_device_def split: option.splits gvalue.splits)
  then show ?thesis by (induction order) simp_all
qed

text \<open>C35: a tick of the health check stores a state exactly for the known
  devices whose last receive time is an int64 and whose period is a uint32: 1 when more than
  twice the period has passed since the last data and 0 otherwise, with no overflow in the
  64-bit arithmetic, whatever the order of the devices; nothing else changes. Devices whose
  period has any other type are never checked, so a state without a uint32 period is left
  exactly as it is.\<close>

theorem health_check_correct:
  assumes "sane_times (clock st) st" "set order = known_devices st"
  shows "GetDeviceValue d r (health_check order st) =
      (case overdue (clock st) d st of
         Some late \<Rightarrow> if r = ''state'' then Some (VUint8 (if late then 1 else 0)) else GetDeviceValue d r st
       | None \<Rightarrow> GetDeviceValue d r st) \<and>
    ((\<forall>d p. GetDeviceValue d ''period'' st \<noteq> Some (VUint32 p)) \<longrightarrow> health_check order st = st)"
proof (intro conjI impI)
  have "d \<in> set order" if "overdue (clock st) d st = Some late" for late
    using that assms(2) by (auto simp: overdue_def known_devices_iff GetDeviceValue_def split: option.splits)
  then show "GetDeviceValue d r (health_check order st) =
      (case overdue (clock st) d st of
         Some late \<Rightarrow> if r = ''state'' then Some (VUint8 (if late then 1 else 0)) else GetDeviceValue d r st
       | None \<Rightarrow> GetDeviceValue d r st)"
    unfolding health_check_def check_devices_get [OF assms(1)] by (auto split: option.splits)
  show "health_check order st = st" if "\<forall>d p. GetDeviceValue d ''period'' st \<noteq> Some (VUint32 p)"
    unfolding health_check_def by (rule unchecked_devices) (use that in blast)
qed

definition demo_stale :: driver_state where
  "demo_stale = SetDeviceValue ''D'' ''period'' (VUint32 60)
     (SetDeviceValue ''D'' ''lastDataTimestamp'' (VInt64 0) (demo_driver\<lparr>clock := 120000000001\<rparr>))"

theorem health_check_correct_witness:
  "GetDeviceValue ''D'' ''state'' (health_check [''Data-Demo'', ''D''] demo_stale) = Some (VUint8 1)"
proof -
  have v: "GetDeviceValue d r demo_stale =
      (if d = ''D'' \<and> r = ''period'' then Some (VUint32 60)
       else if d = ''D'' \<and> r = ''lastDataTimestamp'' then Some (VInt64 0)
       else if d = ''Data-Demo'' \<and> r = ''eid'' then Some (VString ''238A08262319'') else None)" for d r
    by (simp add: demo_stale_def SetDeviceValue_get) (simp add: GetDeviceValue_def)
  have c: "clock demo_stale = 120000000001" by (simp add: demo_stale_def)
  have s: "sane_times (clock demo_stale) demo_stale" unfolding c by (simp add: sane_times_def v)
  have k: "set [''Data-Demo'', ''D''] = known_devices demo_stale"
    by (simp add: demo_stale_def known_devices_Set) (simp add: known_devices_def insert_commute)
  have o: "overdue (clock demo_stale) ''D'' demo_stale = Some True" unfolding c by (simp add: overdue_def v)
  show ?thesis using health_check_correct [OF s k, of "''D''" "''state''"] o by simp
qed

section \<open>Properties of the listener\<close>

text \<open>When a watched value becomes a comparable, non-zero
  value, the listener calls the handler with it and sets the resource to the int 0; if nobody
  writes it before the next tick, the listener calls the handler a second time, with that 0,
  and only then stays quiet for any number of ticks. Two values of one uncomparable type in
  a row stop the program.\<close>

theorem listener_reports_its_own_reset:
  assumes "wf_values st" "GetDeviceValue d r st = Some v" "iface_eq v prev = Done False" "iface_eq (VInt 0) v = Done False"
    and "handler v st = Done st1" "wf_values st1"
    and "handler (VInt 0) (SetDeviceValue d r (VInt 0) st1) = Done st2" "wf_values st2"
  shows "StartControlListener d r handler (Suc (Suc n)) (prev, st) =
      Done (VInt 0, SetDeviceValue d r (VInt 0) st2) \<and>
    (\<forall>b b'. StartControlListener d r handler 1 (VBytes b', SetDeviceValue d r (VBytes b) st) = Panic)"
proof -
  have tick: "listener_tick d r handler (l, s) =
      obind (iface_eq c l) (\<lambda>same. if same then Done (l, s)
        else obind (handler c s) (\<lambda>s'. Done (c, SetDeviceValue d r (VInt 0) s')))"
    if w: "wf_values s" and g: "GetDeviceValue d r s = Some c" for l c s
  proof -
    obtain vals where "GetDeviceValues d s = Some vals"
      using g by (auto simp: GetDeviceValue_def GetDeviceValues_def split: option.splits)
    moreover from GetDeviceValues_get [OF this w, of r] g have "mget vals r = Some c" by simp
    ultimately show ?thesis by (simp add: listener_tick_def)
  qed
  let ?s2 = "SetDeviceValue d r (VInt 0) st2"
  have quiet: "StartControlListener d r handler n (VInt 0, ?s2) = Done (VInt 0, ?s2)" for n
    using assms(8)
    by (induction n) (simp_all add: tick SetDeviceValue_wf SetDeviceValue_get iface_eq_def same_uncomparable_def)
  have "StartControlListener d r handler (Suc (Suc n)) (prev, st) = Done (VInt 0, ?s2)"
    using assms by (simp add: tick SetDeviceValue_wf SetDeviceValue_get quiet)
  moreover have "StartControlListener d r handler 1 (VBytes b', SetDeviceValue d r (VBytes b) st) = Panic" for b b'
    using assms(1) by (simp add: tick SetDeviceValue_wf SetDeviceValue_get iface_eq_def same_uncomparable_def)
  ultimately show ?thesis by blast
qed

text \<open>A handler that counts its calls in the topology list.\<close>

definition counting_handler :: "gvalue \<Rightarrow> config_state \<Rightarrow> config_state outcome" where
  "counting_handler v st =
     Done (st\<lparr>TopoList := \<lparr>nt_EID = [], nt_Type = [], nt_State = [], nt_Parent = []\<rparr> # TopoList st\<rparr>)"

theorem listener_reports_its_own_reset_witness:
  "\<exists>st. StartControlListener ''Meter'' ''cmd'' counting_handler 7
      (VNil, SetDeviceValue ''Meter'' ''cmd'' (VInt 1) demo_state) = Done (VInt 0, st) \<and> length (TopoList st) = 2"
proof -
  have wf: "wf_values (st\<lparr>TopoList := ts\<rparr>) = wf_values st" for st :: config_state and ts
    by (simp add: wf_values_def)
  have "TopoList demo_state = []" by (simp add: demo_state_def initial_config_def)
  then show ?thesis
    using listener_reports_its_own_reset [where d = "''Meter''" and r = "''cmd''" and v = "VInt 1" and prev = VNil
        and handler = counting_handler and n = 5 and st = "SetDeviceValue ''Meter'' ''cmd'' (VInt 1) demo_state",
        OF SetDeviceValue_wf [OF wf_demo_state]]
    by (simp add: SetDeviceValue_get iface_eq_def same_uncomparable_def counting_handler_def wf SetDeviceValue_wf
        wf_demo_state numeral_eq_Suc)
qed

end
