(* ===== verification/Broker.thy ===== *)
theory Broker
  imports Relay
begin

text \<open>
  The life of the broker connection (\<open>mqttclient/mqttclient.go\<close>). The MQTT library is a parameter; a duration is in
  nanoseconds. \<open>MqttClient\<close>, the package variable, is the client that is in use, if any.
\<close>

record client_options =
  co_Broker :: string
  co_ClientID :: string
  co_ConnectRetry :: bool
  co_ConnectRetryInterval :: int
  co_KeepAlive :: int
  co_PingTimeout :: int

text \<open>What waiting for a token for a given time finds.\<close>

datatype token_result = StillPending | TokenFailed string | TokenDone

record 'c mqttlib =
  mq_NewClient :: "client_options \<Rightarrow> 'c"
  mq_Connect :: "'c \<Rightarrow> int \<Rightarrow> token_result"
  mq_Subscribe :: "'c \<Rightarrow> string \<Rightarrow> byte \<Rightarrow> string option"
  mq_IsConnectionOpen :: "'c \<Rightarrow> bool"

datatype connect_error = ConnectTimeout | ConnectFailed string

definition NewClient :: "'c mqttlib \<Rightarrow> string \<Rightarrow> string \<Rightarrow> connect_error + 'c" where
  "NewClient mq brokerURL clientID =
     (let opts = \<lparr>co_Broker = brokerURL, co_ClientID = clientID, co_ConnectRetry = True,
            co_ConnectRetryInterval = 5000000000, co_KeepAlive = 60000000000,
            co_PingTimeout = 10000000000\<rparr>;
          client = mq_NewClient mq opts
      in case mq_Connect mq client 10000000000 of
           StillPending \<Rightarrow> Inl ConnectTimeout
         | TokenFailed e \<Rightarrow> Inl (ConnectFailed e)
         | TokenDone \<Rightarrow> Inr client)"

definition SubscribeSinkData :: "'c mqttlib \<Rightarrow> 'c \<Rightarrow> string \<Rightarrow> byte \<Rightarrow> string option" where
  "SubscribeSinkData mq cli topic qos = mq_Subscribe mq cli topic qos"

text \<open>\<open>Close\<close> disconnects the client in use; the result is the client to disconnect.\<close>

definition Close :: "'c mqttlib \<Rightarrow> 'c option \<Rightarrow> 'c option" where
  "Close mq MqttClient =
     (case MqttClient of
        None \<Rightarrow> None
      | Some c \<Rightarrow> if mq_IsConnectionOpen mq c then Some c else None)"

end
