(* ===== verification/Uplink.thy ===== *)
theory Uplink
  imports Driver
begin

text \<open>
  What survives the uplink parser: the contract of an invariant under which every frame keeps
  it, and the invariants the parser is shown to keep.
\<close>

section \<open>Invariants of the uplink\<close>

text \<open>
  The values the parser stores: decoded parameters under the names of the table, the time of
  the last frame, and two texts of control responses. An invariant that survives these
  writes and the other effects of the parser survives the parser.
\<close>

definition parser_write :: "string \<Rightarrow> gvalue \<Rightarrow> bool" where
  "parser_write n v \<longleftrightarrow> (\<exists>t bs. decode t bs = Some (n, v)) \<or>
     n = ''lastDataTimestamp'' \<and> (\<exists>t. v = VInt64 t) \<or>
     n \<in> {''timestamp'', ''reset_ctl''} \<and> (\<exists>i. v = VString (Itoa i))"

locale uplink_invariant =
  fixes inv :: "'a shard_state_scheme \<Rightarrow> bool" and scope :: "string \<Rightarrow> bool" and sid :: string
  assumes inv_scope: "inv st \<Longrightarrow> scope (name_or_empty (LookupDeviceName sid st))"
    and inv_set: "inv st \<Longrightarrow> scope d \<Longrightarrow> parser_write n v \<Longrightarrow> inv (SetDeviceValue d n v st)"
    and inv_topo: "inv st \<Longrightarrow> inv (st\<lparr>TopoList := ns\<rparr>)"
    and inv_resources: "inv st \<Longrightarrow> inv (st\<lparr>Resources1 := m\<rparr>)"
    and inv_flag: "inv st \<Longrightarrow> inv (st\<lparr>ResourcesFlag := b\<rparr>)"
    and inv_status: "inv st \<Longrightarrow> p \<in> {1, 3} \<Longrightarrow> inv (st\<lparr>published := published st @ [downlink (status_frame cnt p status) (clock st)]\<rparr>)"
    and inv_command: "inv st \<Longrightarrow> length (WriteChan st) < 100 \<Longrightarrow>
      inv (st\<lparr>WriteChan := WriteChan st @ [reset_command eid (clock st)]\<rparr>)"
    and inv_fragment: "inv st \<Longrightarrow> FragInd fr \<noteq> 0 \<Longrightarrow> SensorID fr = sid \<Longrightarrow> ProcessFrame fr st = Done st' \<Longrightarrow> inv st'"
begin

lemma note_topo_inv: "inv st \<Longrightarrow> inv (note_topo v st)"
  by (simp add: note_topo_def inv_topo split: gvalue.splits)

lemma inv_device: "inv st \<Longrightarrow> LookupDeviceName sid st = Some d \<Longrightarrow> scope d"
  using inv_scope [of st] by (simp add: name_or_empty_def)

end

lemma two_bytes: "length bs = 2 \<Longrightarrow> \<exists>v. bs = be16_put v"
proof -
  assume "length bs = 2"
  then obtain a b where "bs = [a, b]" by (cases bs; cases "tl bs") auto
  moreover have "\<not> bit b (8 + n)" for n using bit_imp_le_length [of b "8 + n"] by auto
  then have "[a, b] = be16_put (push_bit 8 (ucast a) OR ucast b)"
    by (auto simp: be16_put_def bit_simps intro!: bit_word_eqI)
  ultimately show ?thesis by blast
qed

lemma frame_split:
  assumes "\<not> slen frame < 9"
  obtains sid head content crc where "vis frame = sid @ head # content @ be16_put crc" "length sid = 6"
proof -
  let ?bs = "vis frame" and ?n = "slen frame"
  have n: "9 \<le> length ?bs" using assms by (simp add: slen_def)
  have "?bs = take 6 ?bs @ drop 6 ?bs" by simp
  moreover have "drop 6 ?bs = ?bs ! 6 # drop 7 ?bs" using n by (simp add: Cons_nth_drop_Suc [symmetric])
  moreover have "drop 7 ?bs = take (?n - 9) (drop 7 ?bs) @ drop (?n - 2) ?bs"
    using n append_take_drop_id [of "?n - 9" "drop 7 ?bs"] by (simp add: slen_def)
  moreover obtain crc where "drop (?n - 2) ?bs = be16_put crc"
    using two_bytes [of "drop (?n - 2) ?bs"] n by (auto simp: slen_def)
  ultimately have "?bs = take 6 ?bs @ ?bs ! 6 # take (?n - 9) (drop 7 ?bs) @ be16_put crc" by metis
  with that n show ?thesis by simp
qed

context uplink_invariant
begin

lemma parsed_inv:
  "parse_value t bs st = Done (r, st') \<Longrightarrow> inv st \<Longrightarrow>
   inv st' \<and> (\<forall>n v. r = Some (n, v) \<longrightarrow> parser_write n v)"
  by (auto simp: parse_value_total note_topo_inv simp: parser_write_def split: option.splits)

lemma parser_body_inv:
  assumes "parser_body frame d p i (rv, st) = Done r" "inv st" "scope d"
  shows "\<forall>s \<in> set_round r. inv (snd s)"
proof (cases "int i + 2 > int (slen frame) - 2")
  case True
  then show ?thesis using assms by (auto simp: parser_body_def)
next
  case False
  with assms(1) obtain t bs j o' st' where v: "parse_value t bs st = Done (o', st')"
    and r: "r = Next (p + 1) j (case o' of None \<Rightarrow> (rv, st')
      | Some (name, val) \<Rightarrow> if val \<noteq> VNil then (mput name val rv, SetDeviceValue d name val st') else (rv, st'))"
    unfolding parser_body_def Let_def by (fastforce simp: outcome_simps)
  from parsed_inv [OF v assms(2)] show ?thesis
    using assms(3) by (auto simp: r inv_set split: option.splits)
qed

lemma parser_loop_inv:
  "parser_loop frame d n p i s = Done s' \<Longrightarrow> inv (snd s) \<Longrightarrow> scope d \<Longrightarrow> inv (snd s')"
proof (induction frame d n p i s rule: parser_loop.induct)
  case (1 frame d n p i s)
  show ?case
  proof (cases "p < n")
    case True
    then obtain r where r: "parser_body frame d p i s = Done r"
      "(case r of Break s' \<Rightarrow> Done s' | Next p i s' \<Rightarrow> parser_loop frame d n p i s') = Done s'"
      using "1.prems"(1) by (subst (asm) parser_loop.simps) (auto simp: outcome_simps)
    from parser_body_inv [of frame d p i "fst s" "snd s" r] r(1) "1.prems"(2,3)
    have "\<forall>s \<in> set_round r. inv (snd s)" by simp
    then show ?thesis using r 1(1) [OF True r(1)] "1.prems"(3) by (cases r) auto
  next
    case False
    then show ?thesis using "1.prems" by (subst (asm) parser_loop.simps) simp
  qed
qed

lemma common_body_inv:
  assumes "common_body data fr p i st = Done r" "inv st" "SensorID fr = sid"
  shows "\<forall>s \<in> set_round r. inv s"
proof (cases "LookupDeviceName sid st")
  case None
  then show ?thesis using assms by (auto simp: common_body_def outcome_simps split: if_splits)
next
  case (Some d)
  then have "scope d" using assms(2) by (rule inv_device [rotated])
  with Some assms show ?thesis
    by (auto simp: common_body_def outcome_simps Let_def split: if_splits option.splits
        dest!: parsed_inv intro!: inv_resources inv_set)
qed

lemma common_loop_inv: "common_loop data fr p i st = Done st' \<Longrightarrow> inv st \<Longrightarrow> SensorID fr = sid \<Longrightarrow> inv st'"
proof (induction data fr p i st rule: common_loop.induct)
  case (1 data fr p i st)
  show ?case
  proof (cases "p < unat (DataLen fr)")
    case True
    then obtain r where r: "common_body data fr p i st = Done r"
      "(case r of Break s' \<Rightarrow> Done s' | Next p i s' \<Rightarrow> common_loop data fr p i s') = Done st'"
      using "1.prems"(1) by (subst (asm) common_loop.simps) (auto simp: outcome_simps)
    from common_body_inv [OF r(1)] "1.prems"(2,3) have "\<forall>s \<in> set_round r. inv s" by simp
    then show ?thesis using r 1(1) [OF True r(1)] "1.prems"(3) by (cases r) auto
  next
    case False
    then show ?thesis using "1.prems" by (subst (asm) common_loop.simps) simp
  qed
qed

lemma text_writes:
  "parser_write ''timestamp'' (VString (Itoa i))" "parser_write ''reset_ctl'' (VString (Itoa i))"
  "parser_write ''lastDataTimestamp'' (VInt64 t)"
  by (auto simp: parser_write_def)

lemma Parse_inv:
  assumes "inv st" "SensorID fr = sid" "Parse h data fr st = Done (err, st')"
  shows "inv st'"
proof (cases h)
  case CommonPara
  then show ?thesis using assms
    by (auto simp: common_para_response_def outcome_simps intro!: inv_flag dest!: common_loop_inv
        intro: inv_resources)
next
  case ResetCommands
  show ?thesis
  proof (cases "reset_eid fr st")
    case None
    then have "st' = st"
      using ResetCommands assms(3) by (auto simp: resetCommands_def reset_eid_def Let_def split: option.splits gvalue.splits)
    then show ?thesis using assms(1) by simp
  next
    case (Some eid)
    then show ?thesis
      using ResetCommands assms resetCommands_send [OF Some, of data]
      by (auto simp: send_WriteChan_def write_capacity_def outcome_simps inv_command split: if_splits)
  qed
qed (use assms inv_scope [OF assms(1)] in \<open>auto simp: timestamp_response_def reset_response_def outcome_simps Let_def
    intro!: inv_set text_writes\<close>)

lemma handleFrameCtl_inv:
  "handleFrameCtl fr st = Done st' \<Longrightarrow> inv st \<Longrightarrow> SensorID fr = sid \<Longrightarrow> inv st'"
  by (auto simp: handleFrameCtl_def outcome_simps Let_def split: if_splits option.splits dest: Parse_inv [rotated 2])

lemma SendDataStatus_inv: "inv st \<Longrightarrow> p \<in> {1, 3} \<Longrightarrow> inv (snd (SendDataStatus k p status n st))"
  by (simp only: SendDataStatus_sends inv_status)

lemma parse_items_inv:
  assumes "\<And>f d s vs st st'. cb = Some f \<Longrightarrow> inv st \<Longrightarrow> scope d \<Longrightarrow> f d s vs st = Done st' \<Longrightarrow> inv st'"
    and "parse_items cb frame d n st = Done st'" "inv st" "scope d"
  shows "inv st'"
proof -
  obtain rv st1 where l: "parser_loop frame d n 0 7 ([], st) = Done (rv, st1)"
    and r: "(case cb of None \<Rightarrow> Done st1
      | Some f \<Rightarrow> if length rv > 0 then f d ''AsyncReporting'' rv st1 else Done st1) = Done st'"
    using assms(2) unfolding parse_items_def by (fastforce simp: outcome_simps)
  have "inv st1" using parser_loop_inv [OF l] assms(3,4) by simp
  then show ?thesis using r assms(1,4) by (auto split: option.splits if_splits)
qed

lemma control_response_inv:
  assumes "\<And>f d s vs st st'. cb = Some f \<Longrightarrow> inv st \<Longrightarrow> scope d \<Longrightarrow> f d s vs st = Done st' \<Longrightarrow> inv st'"
    and "control_response cb fr d st = Done st'" "inv st" "scope d" "SensorID fr = sid"
  shows "inv st'"
proof -
  obtain st1 where h: "handleFrameCtl fr st = Done st1"
    and r: "(if ResourcesFlag st1 then
         (case cb of None \<Rightarrow> Panic
          | Some f \<Rightarrow> obind (f d ''AsyncReporting'' (Resources1 st1) st1) (\<lambda>st''. Done (st''\<lparr>ResourcesFlag := False\<rparr>)))
       else Done st1) = Done st'"
    using assms(2) unfolding control_response_def by (auto simp: outcome_simps)
  have "inv st1" by (rule handleFrameCtl_inv [OF h assms(3,5)])
  then show ?thesis
    using r assms(1,4) by (auto simp: outcome_simps intro: inv_flag split: if_splits option.splits)
qed

lemma parse_frame_inv:
  assumes cb: "\<And>f d s vs st st'. cb = Some f \<Longrightarrow> inv st \<Longrightarrow> scope d \<Longrightarrow> f d s vs st = Done st' \<Longrightarrow> inv st'"
    and p: "parse_frame cb frame st = Done st'" and st: "inv st" and sid: "sid = hex_upper (take 6 (vis frame))"
  shows "inv st'"
proof (cases "slen frame < 9")
  case False
  then obtain id head content crc where f: "vis frame = id @ head # content @ be16_put crc" "length id = 6"
    by (rule frame_split)
  then have id: "hex_upper id = sid" using sid by simp
  show ?thesis
  proof (cases "LookupDeviceName sid st")
    case None
    then show ?thesis using p st parse_frame_parts [OF f, of cb st] by (simp add: id)
  next
    case (Some d)
    let ?st1 = "onDataReceived d st" and ?fr = "frame_of id head content crc"
    have d: "scope d" by (rule inv_device [OF st Some])
    have st1: "inv ?st1" by (simp add: onDataReceived_def inv_set st d text_writes)
    have fr: "SensorID ?fr = sid" by (simp add: frame_of_def id)
    have items: "inv st'" if "parse_items cb frame d n s = Done st'" "inv s" for n s
      by (rule parse_items_inv [OF _ that d]) (rule cb)
    have ctl: "inv st'" if "control_response cb ?fr d ?st1 = Done st'"
      by (rule control_response_inv [OF _ that st1 d fr]) (rule cb)
    show ?thesis
    proof (cases "CRC16 (id @ head # content) = crc")
      case False
      then have "st' = crc_failed sid (drop_bit 3 head AND 0x1) (head AND 0x07) (drop_bit 4 head) ?st1"
        using p Some parse_frame_parts [OF f, of cb st] by (simp add: id)
      then show ?thesis using st1 by (simp add: crc_failed_def SendDataStatus_inv)
    next
      case True
      then have "dispatch_frame cb frame ?fr d ?st1 = Done st'"
        using p Some parse_frame_parts [OF f, of cb st] by (simp add: id)
      then show ?thesis
        using st1 fr by (auto simp: dispatch_frame_def Let_def outcome_simps intro: items ctl SendDataStatus_inv
            dest: inv_fragment split: if_splits)
    qed
  qed
qed (use p st in \<open>simp add: parse_frame_def\<close>)

end

text \<open>The parts an operation on the values leaves alone.\<close>

lemma values_only [simp]:
  "WriteChan (SetDeviceValue d n v st) = WriteChan st" "queue_ok (SetDeviceValue d n v g) = queue_ok g"
  "shard_inv (SetDeviceValue d n v s) = shard_inv s"
  "asyncCh (SetDeviceValue d n v a) = asyncCh a" "async_room (SetDeviceValue d n v a) = async_room a"
  "wf_eids (SetDeviceValue d n v st) = wf_eids st"
  by (simp_all add: queue_ok_def shard_inv_def has_timeout_def wf_eids_def) (simp_all add: SetDeviceValue_def Let_def)

lemma shard_inv_only [simp]:
  "shard_inv (st\<lparr>TopoList := ns\<rparr>) = shard_inv st" "shard_inv (st\<lparr>Resources1 := m\<rparr>) = shard_inv st"
  "shard_inv (st\<lparr>ResourcesFlag := b\<rparr>) = shard_inv st" "shard_inv (st\<lparr>published := msgs\<rparr>) = shard_inv st"
  "shard_inv (st\<lparr>WriteChan := cs\<rparr>) = shard_inv st" "shard_inv (st\<lparr>SinkRawDataCh := fs\<rparr>) = shard_inv st"
  "shard_inv (st\<lparr>clock := t\<rparr>) = shard_inv st" "shard_inv (st\<lparr>ValuesMap := vs\<rparr>) = shard_inv st"
  by (simp_all add: shard_inv_def has_timeout_def)

lemma shard_inv_asyncCh [simp]: "shard_inv (st\<lparr>asyncCh := vs\<rparr>) = shard_inv (st :: 'a driver_state_scheme)"
  by (simp add: shard_inv_def has_timeout_def)

lemma fragment_effect_frame:
  "ValuesMap (fragment_effect k pdu st) = ValuesMap st"
  "SensorIDToDeviceName (fragment_effect k pdu st) = SensorIDToDeviceName st"
  "WriteChan (fragment_effect k pdu st) = WriteChan st"
  "SinkRawDataCh (fragment_effect k pdu st) = SinkRawDataCh st"
  "shard_state.more (fragment_effect k pdu st) = shard_state.more st"
  by (cases pdu; simp add: sendAck_publishes deliver_def start_cache_def put_cache_def drop_cache_def
      stop_timer_def split: option.splits)+

lemma shard_fields:
  fixes st st' :: "'a driver_state_scheme"
  assumes "shard_state.more st' = shard_state.more st"
  shows "asyncCh st' = asyncCh st" "async_room st' = async_room st"
  using assms by (cases st; cases st'; simp)+

lemma fragment_effect_caches:
  "k' \<noteq> k \<Longrightarrow> mget (sduCaches (fragment_effect k pdu st)) k' = mget (sduCaches st) k'"
  by (cases pdu) (auto simp: sendAck_publishes deliver_def start_cache_def put_cache_def drop_cache_def
      stop_timer_def mget_put mget_del split: option.splits)

lemma fragment_effect_published:
  "\<exists>s ok p. published (fragment_effect k pdu st) =
     published st @ [downlink (Frame_Bytes (ack_frame k s ok p)) (clock st)]"
  by (cases pdu) (auto simp: sendAck_publishes deliver_def start_cache_def put_cache_def drop_cache_def
      stop_timer_def split: option.splits)

lemma collected:
  assumes "shard_inv st" "FragInd fr \<noteq> 0" "ProcessFrame fr st = Done st'"
  obtains pdu where "st' = fragment_effect (SensorID fr) pdu st" "shard_inv st'"
proof -
  from assms(1,3) obtain pdu where "st' = fragment_effect (SensorID fr) pdu st"
    using ProcessFrame_fragment [OF assms(2) shard_inv_unfinished [OF assms(1)]] by (auto simp: outcome_simps)
  moreover have "shard_inv st'" using assms(1) shard_step_inv [OF shard_step.fragment [OF assms(2,3)]] by blast
  ultimately show thesis by (rule that)
qed

section \<open>What a frame may touch\<close>

text \<open>The row of a device after some writes of the parser, and reports about one device.\<close>

definition row_grown :: "string \<Rightarrow> 'a config_state_scheme \<Rightarrow> 'a config_state_scheme \<Rightarrow> bool" where
  "row_grown d st0 st \<longleftrightarrow>
     (\<exists>row. (\<forall>r v. row r = Some v \<longrightarrow> parser_write r v) \<and>
        (\<lambda>r. GetDeviceValue d r st) = (\<lambda>r. GetDeviceValue d r st0) ++ row)"

lemma row_grown_refl: "row_grown d st st"
  by (auto simp: row_grown_def intro: exI [of _ Map.empty])

lemma row_grown_set:
  assumes "row_grown d st0 st" "parser_write n v"
  shows "row_grown d st0 (SetDeviceValue d n v st)"
proof -
  obtain row where row: "\<forall>r v. row r = Some v \<longrightarrow> parser_write r v"
    "(\<lambda>r. GetDeviceValue d r st) = (\<lambda>r. GetDeviceValue d r st0) ++ row"
    using assms(1) by (auto simp: row_grown_def)
  have "(\<lambda>r. GetDeviceValue d r (SetDeviceValue d n v st)) = (\<lambda>r. GetDeviceValue d r st)(n \<mapsto> v)"
    by (auto simp: SetDeviceValue_get)
  also have "\<dots> = (\<lambda>r. GetDeviceValue d r st0) ++ row(n \<mapsto> v)" by (simp add: row(2))
  finally have eq: "(\<lambda>r. GetDeviceValue d r (SetDeviceValue d n v st)) = (\<lambda>r. GetDeviceValue d r st0) ++ row(n \<mapsto> v)" .
  have safe: "\<forall>r w. (row(n \<mapsto> v)) r = Some w \<longrightarrow> parser_write r w" using row(1) assms(2) by simp
  show ?thesis unfolding row_grown_def by (intro exI conjI) (rule safe, rule eq)
qed

definition reports_of :: "string \<Rightarrow> AsyncValues list \<Rightarrow> AsyncValues list \<Rightarrow> bool" where
  "reports_of d q0 q \<longleftrightarrow> (\<exists>rs. q = q0 @ rs \<and> (\<forall>v \<in> set rs. av_DeviceName v = d))"

lemma reports_of_refl [simp]: "reports_of d q q"
  by (simp add: reports_of_def)

lemma reports_of_snoc: "reports_of d q0 q \<Longrightarrow> av_DeviceName v = d \<Longrightarrow> reports_of d q0 (q @ [v])"
  by (auto simp: reports_of_def)

text \<open>
  What the frames of the sensor \<open>sid\<close> of device \<open>d\<close> may have changed between \<open>st0\<close> and \<open>st\<close>:
  new values in the row of \<open>d\<close>, the cache of \<open>sid\<close>, and reports that name \<open>d\<close>.
\<close>

definition owned :: "string \<Rightarrow> string \<Rightarrow> 'a driver_state_scheme \<Rightarrow> 'a driver_state_scheme \<Rightarrow> bool" where
  "owned sid d st0 st \<longleftrightarrow>
     LookupDeviceName sid st0 = Some d \<and> SensorIDToDeviceName st = SensorIDToDeviceName st0 \<and>
     (\<forall>d' r. d' \<noteq> d \<longrightarrow> GetDeviceValue d' r st = GetDeviceValue d' r st0) \<and> row_grown d st0 st \<and>
     shard_inv st \<and> (\<forall>k. k \<noteq> sid \<longrightarrow> mget (sduCaches st) k = mget (sduCaches st0) k) \<and>
     SinkRawDataCh st = SinkRawDataCh st0 \<and> async_room st = async_room st0 \<and>
     reports_of d (asyncCh st0) (asyncCh st)"

lemma owned_refl: "LookupDeviceName sid st = Some d \<Longrightarrow> shard_inv st \<Longrightarrow> owned sid d st st"
  by (simp add: owned_def row_grown_refl)

text \<open>Nothing else of the state matters.\<close>

lemma owned_cong:
  fixes st st' :: "'a driver_state_scheme"
  assumes "owned sid d st0 st" "ValuesMap st' = ValuesMap st" "SensorIDToDeviceName st' = SensorIDToDeviceName st"
    and "shard_inv st'" "\<forall>k. k \<noteq> sid \<longrightarrow> mget (sduCaches st') k = mget (sduCaches st) k"
    and "SinkRawDataCh st' = SinkRawDataCh st" "shard_state.more st' = shard_state.more st"
  shows "owned sid d st0 st'"
proof -
  have "GetDeviceValue d' r st' = GetDeviceValue d' r st" for d' r
    using assms(2) by (simp add: GetDeviceValue_def)
  then show ?thesis using assms shard_fields [OF assms(7)] by (simp add: owned_def row_grown_def)
qed

lemma owned_set: "owned sid d st0 st \<Longrightarrow> parser_write n v \<Longrightarrow> owned sid d st0 (SetDeviceValue d n v st)"
  by (simp add: owned_def row_grown_set SetDeviceValue_get)

interpretation owner: uplink_invariant
    "owned sid d st0 :: 'a driver_state_scheme \<Rightarrow> bool" "\<lambda>d'. d' = d" sid for sid d st0
proof
  fix st st' :: "'a driver_state_scheme" and fr
  assume st: "owned sid d st0 st"
  note keep = owned_cong [OF st]
  have inv: "shard_inv st" using st by (simp add: owned_def)
  show "name_or_empty (LookupDeviceName sid st) = d"
    using st by (simp add: owned_def LookupDeviceName_def name_or_empty_def)
  show "owned sid d st0 (SetDeviceValue d' n v st)" if "d' = d" "parser_write n v" for d' n v
    using owned_set [OF st that(2)] that(1) by simp
  show "owned sid d st0 (st\<lparr>TopoList := ns\<rparr>)" for ns by (rule keep) (simp_all add: inv)
  show "owned sid d st0 (st\<lparr>Resources1 := m\<rparr>)" for m by (rule keep) (simp_all add: inv)
  show "owned sid d st0 (st\<lparr>ResourcesFlag := b\<rparr>)" for b by (rule keep) (simp_all add: inv)
  show "owned sid d st0 (st\<lparr>published := published st @ [m]\<rparr>)" for m by (rule keep) (simp_all add: inv)
  show "owned sid d st0 (st\<lparr>WriteChan := WriteChan st @ [c]\<rparr>)" for c by (rule keep) (simp_all add: inv)
  show "owned sid d st0 st'" if fr: "FragInd fr \<noteq> 0" "SensorID fr = sid" "ProcessFrame fr st = Done st'"
  proof -
    obtain pdu where "st' = fragment_effect sid pdu st" "shard_inv st'"
      using collected [OF inv fr(1,3)] fr(2) by metis
    then show ?thesis by (intro keep) (simp_all add: fragment_effect_frame fragment_effect_caches)
  qed
qed

lemma GetDeviceValue_asyncCh [simp]:
  "GetDeviceValue d r (st\<lparr>asyncCh := vs\<rparr>) = GetDeviceValue d r (st :: 'a driver_state_scheme)"
  by (simp add: GetDeviceValue_def)

lemma row_grown_asyncCh [simp]:
  "row_grown d st0 (st\<lparr>asyncCh := vs\<rparr>) = row_grown d st0 (st :: 'a driver_state_scheme)"
  by (simp add: row_grown_def)

lemma AsyncReporting_owned:
  "AsyncReporting order d src vs st = Done st' \<Longrightarrow> owned sid d st0 st \<Longrightarrow> owned sid d st0 st'"
  by (auto simp: AsyncReporting_def owned_def Let_def intro!: reports_of_snoc split: if_splits)

lemma parse_frame_owned:
  fixes st :: "'a driver_state_scheme"
  assumes "parse_frame (Some (AsyncReporting order)) frame st = Done st'" "shard_inv st"
  shows "case LookupDeviceName (hex_upper (take 6 (vis frame))) st of
     None \<Rightarrow> st' = st | Some d \<Rightarrow> owned (hex_upper (take 6 (vis frame))) d st st'"
proof (cases "LookupDeviceName (hex_upper (take 6 (vis frame))) st")
  case None
  have "st' = st" if n: "\<not> slen frame < 9"
  proof -
    obtain sid head content crc where f: "vis frame = sid @ head # content @ be16_put crc" "length sid = 6"
      using frame_split [OF n] .
    show "st' = st" using None assms(1) parse_frame_parts [OF f, of "Some (AsyncReporting order)" st] by (simp add: f)
  qed
  moreover have "st' = st" if "slen frame < 9" using that assms(1) by (simp add: parse_frame_def)
  ultimately show ?thesis using None by auto
next
  case (Some d)
  have "owned (hex_upper (take 6 (vis frame))) d st st'"
    by (rule owner.parse_frame_inv [OF _ assms(1) owned_refl [OF Some assms(2)] refl]) (auto dest: AsyncReporting_owned)
  with Some show ?thesis by simp
qed


lemma AsyncReporting_room:
  "length (asyncCh st) < async_room st \<Longrightarrow> \<exists>st'. AsyncReporting order d src vs st = Done st'"
  by (auto simp: AsyncReporting_def Let_def)


section \<open>What the service sends\<close>

text \<open>
  A frame whose receiver finds the module's sensor ID, a status or control type and a checksum
  over everything before it; the acknowledgements of fragments have another layout.
\<close>

definition readable_frame :: "bytes \<Rightarrow> bool" where
  "readable_frame f \<longleftrightarrow> 9 \<le> length f \<and> take 6 f = module_id \<and> f ! 6 AND 0x07 \<in> {1, 3, 4} \<and>
     be16_get (drop (length f - 2) f) = Done (CRC16 (take (length f - 2) f))"

definition service_frame :: "bytes \<Rightarrow> bool" where
  "service_frame f \<longleftrightarrow> readable_frame f \<or> (\<exists>k s ok p. f = Frame_Bytes (ack_frame k s ok p))"

definition sent_ok :: "'a gateway_state_scheme \<Rightarrow> bool" where
  "sent_ok st \<longleftrightarrow> (\<forall>m \<in> set (published st). \<exists>f t. m = downlink f t \<and> service_frame f) \<and>
     (\<forall>c \<in> set (WriteChan st). \<exists>eid t. c = reset_command eid t)"

lemma readable_with_crc:
  "h AND 0x07 \<in> {1, 3, 4} \<Longrightarrow> readable_frame (with_crc (module_id @ h # body))"
  by (auto simp: readable_frame_def with_crc_parts with_crc_def module_id_def)

lemma head_byte_and_7: "head_byte n f p AND 0x07 = p AND 0x07"
proof -
  have m: "w AND 0x07 = take_bit 3 w" for w :: byte by (simp add: take_bit_eq_mask mask_eq_exp_minus_1)
  show ?thesis unfolding head_byte_def m
    by (rule bit_word_eqI) (auto simp: bit_simps)
qed

lemma head_byte_type: "p \<in> {1, 3, 4} \<Longrightarrow> head_byte n f p AND 0x07 \<in> {1, 3, 4}"
  by (auto simp: head_byte_and_7)

lemma status_frame_readable: "p \<in> {1, 3} \<Longrightarrow> readable_frame (status_frame n p s)"
  using readable_with_crc [OF head_byte_type [of p n 0], of "[s]"]
  by (auto simp: status_frame_def module_id_def)

lemma command_frame_readable: "map_of (command_frames now) c = Some f \<Longrightarrow> readable_frame f"
  using head_byte_type [of 4]
  by (auto simp: command_frames_def BuildResetRequest_def BuildParameterQueryFrame_def
      BuildAlarmParameterQueryFrame_def BuildMonitoringDataQueryFrame_def BuildGeneralParamQueryFrame_def intro!: readable_with_crc split: if_splits)

lemma sent_ok_append:
  "sent_ok st \<Longrightarrow> service_frame f \<Longrightarrow> sent_ok (st\<lparr>published := published st @ [downlink f t]\<rparr>)"
  by (auto simp: sent_ok_def)

lemma sent_ok_cong:
  "sent_ok st \<Longrightarrow> published st' = published st \<Longrightarrow> WriteChan st' = WriteChan st \<Longrightarrow> sent_ok st'"
  by (simp add: sent_ok_def)

lemma fragment_effect_sent: "sent_ok st \<Longrightarrow> sent_ok (fragment_effect k pdu st)"
  using fragment_effect_published [of k pdu st]
  by (fastforce simp: sent_ok_def service_frame_def fragment_effect_frame)

interpretation sent: uplink_invariant
    "\<lambda>s :: 'a driver_state_scheme. sent_ok s \<and> shard_inv s" "\<lambda>_. True" sid for sid
proof
  fix st st' :: "'a driver_state_scheme" and fr
  assume st: "sent_ok st \<and> shard_inv st" and fr: "FragInd fr \<noteq> 0" "SensorID fr = sid" "ProcessFrame fr st = Done st'"
  obtain pdu where "st' = fragment_effect sid pdu st" "shard_inv st'"
    using collected [OF conjunct2 [OF st] fr(1,3)] fr(2) by metis
  then show "sent_ok st' \<and> shard_inv st'" using st by (simp add: fragment_effect_sent)
qed (auto simp: sent_ok_append service_frame_def status_frame_readable intro: sent_ok_cong, auto simp: sent_ok_def)

lemma AsyncReporting_sent: "AsyncReporting order d src vs st = Done st' \<Longrightarrow> sent_ok st \<and> shard_inv st \<Longrightarrow> sent_ok st' \<and> shard_inv st'"
  by (auto simp: AsyncReporting_def Let_def sent_ok_def split: if_splits)

lemma parse_frame_sent:
  fixes st :: "'a driver_state_scheme"
  assumes "parse_frame (Some (AsyncReporting order)) frame st = Done st'" "shard_inv st" "sent_ok st"
  shows "sent_ok st'"
  using sent.parse_frame_inv [OF _ assms(1) _ refl] AsyncReporting_sent assms(2,3) by blast

section \<open>When the parser waits\<close>

text \<open>Parsing leaves the channel to the SDK alone until it reports.\<close>

interpretation sdk: uplink_invariant
    "\<lambda>s :: 'a driver_state_scheme. asyncCh s = q \<and> async_room s = n \<and> shard_inv s" "\<lambda>_. True" sid for q n sid
proof
  fix st st' :: "'a driver_state_scheme" and fr
  assume st: "asyncCh st = q \<and> async_room st = n \<and> shard_inv st"
    and fr: "FragInd fr \<noteq> 0" "SensorID fr = sid" "ProcessFrame fr st = Done st'"
  obtain pdu where "st' = fragment_effect sid pdu st" "shard_inv st'"
    using collected [OF conjunct2 [OF conjunct2 [OF st]] fr(1,3)] fr(2) by metis
  then show "asyncCh st' = q \<and> async_room st' = n \<and> shard_inv st'"
    using st shard_fields [OF fragment_effect_frame(5), of sid pdu st] by simp
qed simp_all

lemma read_head_le16_not_Blocked: "read_head le16_get s i \<noteq> Blocked"
  by (auto simp: read_head_def read_len_def outcome_simps split: if_splits)

lemma parser_loop_not_Blocked: "parser_loop frame d n p i s \<noteq> Blocked"
proof (induction frame d n p i s rule: parser_loop.induct)
  case (1 frame d n p i s)
  have "parser_body frame d p i s \<noteq> Blocked"
    by (cases s) (auto simp: parser_body_def outcome_simps read_head_le16_not_Blocked parse_value_total Let_def)
  then show ?case using 1
    by (subst parser_loop.simps) (auto simp: outcome_simps split: round.splits)
qed

lemma Parse_Blocked: "Parse h data fr st = Blocked \<Longrightarrow> 100 \<le> length (WriteChan st)"
  by (cases h)
    (auto simp: common_para_response_def timestamp_response_def reset_response_def resetCommands_def
      common_loop_outcome config_RestCommandBuildFrame_def config_SendFrame_def send_WriteChan_def
      write_capacity_def outcome_simps Let_def split: option.splits sum.splits gvalue.splits if_splits)

lemma handleFrameCtl_Blocked: "handleFrameCtl fr st = Blocked \<Longrightarrow> 100 \<le> length (WriteChan st)"
  by (auto simp: handleFrameCtl_def outcome_simps Let_def dest: Parse_Blocked split: if_splits option.splits)

lemma AsyncReporting_Blocked:
  "AsyncReporting order d src vs st = Blocked \<Longrightarrow> async_room st \<le> length (asyncCh st)"
  by (auto simp: AsyncReporting_def Let_def split: if_splits)

lemma parse_items_Blocked:
  fixes st :: "'a driver_state_scheme"
  assumes "parse_items (Some (AsyncReporting order)) frame d n st = Blocked" "shard_inv st"
  shows "async_room st \<le> length (asyncCh st)"
proof -
  obtain rv st1 where l: "parser_loop frame d n 0 7 ([], st) = Done (rv, st1)"
    and b: "AsyncReporting order d ''AsyncReporting'' rv st1 = Blocked"
    using assms(1) parser_loop_not_Blocked [of frame d n 0 7 "([], st)"]
    unfolding parse_items_def by (auto simp: outcome_simps split: if_splits)
  show ?thesis
    using sdk.parser_loop_inv [OF l, of "asyncCh st" "async_room st"] AsyncReporting_Blocked [OF b] assms(2) by simp
qed

lemma control_response_Blocked:
  fixes st :: "'a driver_state_scheme"
  assumes "control_response (Some (AsyncReporting order)) fr d st = Blocked" "shard_inv st"
  shows "async_room st \<le> length (asyncCh st) \<or> 100 \<le> length (WriteChan st)"
proof (cases "handleFrameCtl fr st")
  case (Done st1)
  then have b: "AsyncReporting order d ''AsyncReporting'' (Resources1 st1) st1 = Blocked"
    using assms(1) by (auto simp: control_response_def outcome_simps split: if_splits)
  show ?thesis
    using sdk.handleFrameCtl_inv [OF Done, of "asyncCh st" "async_room st"] AsyncReporting_Blocked [OF b] assms(2)
    by simp
qed (use assms in \<open>auto simp: control_response_def dest: handleFrameCtl_Blocked\<close>)

lemma parse_frame_Blocked:
  fixes st :: "'a driver_state_scheme"
  assumes "parse_frame (Some (AsyncReporting order)) frame st = Blocked" "shard_inv st"
  shows "async_room st \<le> length (asyncCh st) \<or> 100 \<le> length (WriteChan st)"
proof -
  have "\<not> slen frame < 9" using assms(1) by (auto simp: parse_frame_def)
  then obtain sid head content crc where f: "vis frame = sid @ head # content @ be16_put crc" "length sid = 6"
    by (rule frame_split)
  let ?fr = "frame_of sid head content crc"
  obtain d where "dispatch_frame (Some (AsyncReporting order)) frame ?fr d (onDataReceived d st) = Blocked"
    using assms(1) parse_frame_parts [OF f, of "Some (AsyncReporting order)" st]
    by (auto split: option.splits if_splits)
  moreover define st1 where "st1 = onDataReceived d st"
  moreover have st1: "asyncCh st1 = asyncCh st" "async_room st1 = async_room st" "WriteChan st1 = WriteChan st"
    "shard_inv st1" using assms(2) by (simp_all add: st1_def onDataReceived_def)
  moreover have "ProcessFrame ?fr st1 \<noteq> Blocked" if "FragInd ?fr \<noteq> 0"
    using ProcessFrame_fragment [OF that shard_inv_unfinished [OF st1(4)]]
    by (auto simp: outcome_simps read_pdu_def Let_def split: if_splits)
  moreover have "async_room st1 \<le> length (asyncCh st1)"
    if "ProcessFrame ?fr st1 = Done st2" "FragInd ?fr \<noteq> 0" "parse_items (Some (AsyncReporting order)) frame d n st2 = Blocked"
    for st2 n
    using sdk.inv_fragment [OF _ that(2) refl that(1), of "asyncCh st1" "async_room st1"] parse_items_Blocked [OF that(3)] st1(4)
    by simp
  moreover have "async_room st1 \<le> length (asyncCh st1)"
    if "parse_items (Some (AsyncReporting order)) frame d n (snd (SendDataStatus k p b c st1)) = Blocked" for n k p b c
    using parse_items_Blocked [OF that] st1(4) by (simp add: SendDataStatus_sends shard_inv_def has_timeout_def)
  moreover note control_response_Blocked [of order ?fr d st1]
  ultimately show ?thesis
    by (auto simp: dispatch_frame_def Let_def outcome_simps split: if_splits)
qed

end
