(* ===== verification/System.thy ===== *)
theory System
  imports Monitor Broker Uplink
begin

text \<open>
  The service as a whole: its start (\<open>Initialize\<close> and \<open>Start\<close> in \<open>driver/wiresinkdriver.go\<close>) and the
  interleaving of its goroutines, SDK callbacks, timers and consumers. A step is one handler
  run to its end; what holds after every step holds at every point between two handlers.
\<close>

section \<open>Start\<close>

text \<open>
  \<open>Initialize\<close> takes the empty channel of the SDK, of capacity \<open>room\<close>, and connects; a failed
  connection leaves the client in use as it was.
\<close>

definition Initialize :: "'c mqttlib \<Rightarrow> string \<Rightarrow> int \<Rightarrow> nat \<Rightarrow> 'c option \<Rightarrow> 'a driver_state_scheme \<Rightarrow>
    connect_error option \<times> 'c option \<times> 'a driver_state_scheme" where
  "Initialize mq host pid room MqttClient st =
     (let st' = st\<lparr>asyncCh := [], async_room := room\<rparr>;
          brokerURL = ''tcp://172.16.19.101:1883'';
          clientID = ''wiresink-'' @ host @ ''-'' @ Itoa pid
      in case NewClient mq brokerURL clientID of
           Inl e \<Rightarrow> (Some e, MqttClient, st')
         | Inr client \<Rightarrow> (None, Some client, st'))"

datatype 'e start_error = InitFailed "'e init_error" | SubscribeFatal string

text \<open>A service that was initialised without an error has the client it connected.\<close>

lemma Initialize_connected:
  "Initialize mq host pid room c st = (None, c', st') \<Longrightarrow>
   \<exists>client. c' = Some client \<and> mq_Connect mq client 10000000000 = TokenDone"
  by (auto simp: Initialize_def NewClient_def Let_def split: sum.splits token_result.splits)

text \<open>
  \<open>mq\<close> and \<open>cli\<close> are the MQTT library and the client in use; an error of the subscription
  ends the process. \<open>order\<close> is the order in which the device map is visited. The goroutines
  that are started are steps below; the parser is started before the EID directory is
  rebuilt, so what \<open>Start\<close> does before and after that point are separate functions.
\<close>

definition start_load :: "golib \<Rightarrow> ('e, 'f) filesystem_scheme \<Rightarrow> 'c mqttlib \<Rightarrow> 'c \<Rightarrow>
    'a config_state_scheme \<Rightarrow> 'e start_error option \<times> 'a config_state_scheme" where
  "start_load lib fs mq cli st =
     (case InitDeviceResources lib fs ''../cmd/res/devices/devices.yaml'' ''../cmd/res/profiles'' st of
        (Some e, st') \<Rightarrow> (Some (InitFailed e), st')
      | (None, st') \<Rightarrow>
          (case SubscribeSinkData mq cli ''edgex/service/request/device_wiresink/up'' 0 of
             Some e \<Rightarrow> (Some (SubscribeFatal e), st')
           | None \<Rightarrow> (None, st')))"

definition Start :: "golib \<Rightarrow> ('e, 'f) filesystem_scheme \<Rightarrow> 'c mqttlib \<Rightarrow> 'c \<Rightarrow>
    (gvalue gomap gomap \<Rightarrow> gvalue gomap gomap) \<Rightarrow> 'a config_state_scheme \<Rightarrow>
    'e start_error option \<times> 'a config_state_scheme" where
  "Start lib fs mq cli order st =
     (case start_load lib fs mq cli st of
        (Some e, st') \<Rightarrow> (Some e, st')
      | (None, st') \<Rightarrow> (None, UpdateSensorMapping lib (order (ValuesMap st')) st'))"

section \<open>Steps\<close>

text \<open>The metadata of the SDK may be another one at every step.\<close>

inductive system_step :: "golib \<Rightarrow> 'j jsonlib \<Rightarrow> driver_state \<Rightarrow> driver_state \<Rightarrow> bool"
  for lib :: golib and jl :: "'j jsonlib"
where
  message: "system_step lib jl st (sinkMsgHandler jl hex_spare msg st)"
| parse: "SinkRawDataCh st = frame # rest \<Longrightarrow>
    parse_frame (Some (AsyncReporting order)) frame (st\<lparr>SinkRawDataCh := rest\<rparr>) = Done st' \<Longrightarrow> system_step lib jl st st'"
| consume: "asyncCh st = v # vs \<Longrightarrow> system_step lib jl st (st\<lparr>asyncCh := vs\<rparr>)"
| fires: "mget (armed st) i = Some tm \<Longrightarrow> system_step lib jl st (timer_fires i tm st)"
| timeout: "tm \<in> set (firing st) \<Longrightarrow> system_step lib jl st (run_timeout tm st)"
| reassembled: "SDUCh st = frame # rest \<Longrightarrow>
    ShardingParser [frame] (st\<lparr>SDUCh := rest\<rparr>) = Done st' \<Longrightarrow> system_step lib jl st st'"
| command: "system_step lib jl st (snd (HandleWriteCommands d reqs params st))"
| add: "system_step lib jl st (snd (AddDevice lib (md :: string metadata) d st))"
| update: "system_step lib jl st (snd (UpdateDevice lib (md :: string metadata) d st))"
| remove: "system_step lib jl st (snd (RemoveDevice d st))"
| stop: "Stop force st = Done st' \<Longrightarrow> system_step lib jl st st'"
| health: "set order = known_devices st \<Longrightarrow> system_step lib jl st (health_check order st)"
| time: "clock st \<le> t \<Longrightarrow> system_step lib jl st (st\<lparr>clock := t\<rparr>)"

section \<open>The system invariant\<close>

definition system_inv :: "'a driver_state_scheme \<Rightarrow> bool" where
  "system_inv st \<longleftrightarrow>
     wf_values st \<and> wf_eids st \<and> (\<forall>d p. GetDeviceValue d ''period'' st \<noteq> Some (VUint32 p)) \<and>
     length (WriteChan st) \<le> write_capacity \<and> queue_ok st \<and> shard_inv st \<and>
     length (asyncCh st) \<le> async_room st"

lemmas system_parts =
  system_inv_def wf_values_def wf_eids_def GetDeviceValue_def queue_ok_def shard_inv_def has_timeout_def

text \<open>
  The table gives the type uint32 to the time of day only, so the parser never writes a
  uint32 period.
\<close>

definition period_safe :: "string \<Rightarrow> gvalue \<Rightarrow> bool" where
  "period_safe n v \<longleftrightarrow> n = ''period'' \<longrightarrow> (\<forall>p. v \<noteq> VUint32 p)"

lemma uint32_entries:
  "\<forall>e \<in> set paramMap. pi_Parse (snd e) = ParseUint32 \<longrightarrow> pi_Name (snd e) \<noteq> ''period''"
  by code_simp

lemma decode_period_safe: "decode t bs = Some (n, v) \<Longrightarrow> period_safe n v"
proof -
  assume d: "decode t bs = Some (n, v)"
  then obtain info where info: "LookupParamInfo t = Some info" "n = pi_Name info"
    "run_parser (pi_Parse info) bs = Done (Inr v)"
    by (auto simp: decode_def split: option.splits outcome.splits sum.splits)
  then obtain k where "(k, info) \<in> set paramMap"
    by (auto simp: LookupParamInfo_def Let_def dest!: map_of_SomeD)
  with uint32_entries info(2) have "pi_Parse info = ParseUint32 \<Longrightarrow> n \<noteq> ''period''" by fastforce
  moreover have "pi_Parse info = ParseUint32" if "v = VUint32 p" for p
    using run_parser_type [OF info(3)] that by (cases "pi_Parse info") simp_all
  ultimately show "period_safe n v" by (auto simp: period_safe_def)
qed

lemma parser_write_safe: "parser_write n v \<Longrightarrow> period_safe n v"
  by (auto simp: parser_write_def dest: decode_period_safe) (auto simp: period_safe_def)

lemma system_inv_set: "system_inv st \<Longrightarrow> period_safe n v \<Longrightarrow> system_inv (SetDeviceValue d n v st)"
  by (auto simp: system_inv_def SetDeviceValue_wf SetDeviceValue_get period_safe_def)

lemma system_inv_cong:
  assumes "system_inv st" "ValuesMap st' = ValuesMap st" "SensorIDToDeviceName st' = SensorIDToDeviceName st"
    and "WriteChan st' = WriteChan st" "SinkRawDataCh st' = SinkRawDataCh st" "shard_inv st'"
    and "shard_state.more st' = shard_state.more st"
  shows "system_inv st'"
  using assms shard_fields [OF assms(7)]
  by (simp add: system_inv_def wf_values_def wf_eids_def GetDeviceValue_def queue_ok_def)

interpretation system: uplink_invariant "system_inv :: 'a driver_state_scheme \<Rightarrow> bool" "\<lambda>_. True" sid for sid
proof
  fix st st' :: "'a driver_state_scheme" and fr
  assume st: "system_inv st" and fr: "FragInd fr \<noteq> 0" "SensorID fr = sid" "ProcessFrame fr st = Done st'"
  have "shard_inv st" using st by (simp add: system_inv_def)
  from collected [OF this fr(1,3)] obtain pdu where "st' = fragment_effect sid pdu st" "shard_inv st'"
    using fr(2) by metis
  then show "system_inv st'" using st by (auto intro: system_inv_cong simp: fragment_effect_frame)
qed (simp_all add: system_inv_set parser_write_safe, simp_all add: system_parts write_capacity_def)

section \<open>Every handler keeps the invariant\<close>

lemma sinkMsgHandler_shape:
  "sinkMsgHandler jl sp msg st = st \<or>
   (\<exists>raw. length (SinkRawDataCh st) < raw_capacity \<and>
     sinkMsgHandler jl sp msg st = st\<lparr>SinkRawDataCh := SinkRawDataCh st @ [raw]\<rparr>)"
  by (auto simp: sinkMsgHandler_def split: option.splits sum.splits)

lemma default_period_safe: "period_safe n (parseDefaultValue lib s vt)"
  by (auto simp: period_safe_def parseDefaultValue_def split: option.splits)

lemma init_resources_inv: "system_inv st \<Longrightarrow> system_inv (init_resources lib d drs st)"
  by (induction drs rule: rev_induct)
    (simp_all add: init_resources_def DeviceInit_is_Set system_inv_set default_period_safe)

lemma AsyncReporting_inv:
  "AsyncReporting order d src vs st = Done st' \<Longrightarrow> system_inv st \<Longrightarrow> system_inv st'"
  by (auto simp: AsyncReporting_def Let_def system_parts split: if_splits)

lemma remove_inv: "system_inv st \<Longrightarrow> system_inv (snd (RemoveDevice d st))"
proof -
  assume st: "system_inv st"
  have d: "snd (RemoveDevice d st) = st \<or> snd (RemoveDevice d st) =
      st\<lparr>ValuesMap := mdel d (ValuesMap st), SensorIDToDeviceName :=
        SensorIDToDeviceName (DeleteSensorIDMappingsByDevice d st)\<rparr>"
    by (simp add: RemoveDevice_def DeleteDeviceValues_def DeleteSensorIDMappingsByDevice_def Let_def split: option.splits)
  have "wf_map (SensorIDToDeviceName (DeleteSensorIDMappingsByDevice d st))"
    using st by (simp add: DeleteSensorIDMappingsByDevice_def gomap.wf_dels system_inv_def wf_eids_def)
  moreover have "\<forall>(d', vs) \<in> set (mdel d (ValuesMap st)). wf_map vs"
    using st by (auto simp: system_inv_def wf_values_def AList.delete_eq)
  ultimately have "system_inv (st\<lparr>ValuesMap := mdel d (ValuesMap st), SensorIDToDeviceName :=
        SensorIDToDeviceName (DeleteSensorIDMappingsByDevice d st)\<rparr>)"
    using st by (simp add: system_inv_def wf_values_def wf_eids_def GetDeviceValue_def mget_del queue_ok_def
        shard_inv_def has_timeout_def)
  with d st show ?thesis by auto
qed

lemma parse_step_inv:
  assumes "system_inv st" "SinkRawDataCh st = frame # rest"
    and "parse_frame (Some (AsyncReporting order)) frame (st\<lparr>SinkRawDataCh := rest\<rparr>) = Done st'"
  shows "system_inv st'"
proof (rule system.parse_frame_inv [OF _ assms(3) _ refl])
  show "system_inv (st\<lparr>SinkRawDataCh := rest\<rparr>)"
    using assms(1,2) by (simp add: system_parts)
qed (auto dest: AsyncReporting_inv)

lemma timer_step_inv:
  assumes "system_inv st"
  shows "mget (armed st) i = Some tm \<Longrightarrow> system_inv (timer_fires i tm st)"
    and "system_inv (run_timeout tm st)"
proof -
  have inv: "shard_inv st" using assms by (simp add: system_inv_def)
  show "system_inv (timer_fires i tm st)" if "mget (armed st) i = Some tm"
    using timer_fires_inv [OF inv that] by (rule system_inv_cong [OF assms, rotated 4]) (simp_all add: timer_fires_def)
  show "system_inv (run_timeout tm st)"
    using run_timeout_inv [OF inv, of tm] by (rule system_inv_cong [OF assms, rotated 4])
      (simp_all add: run_timeout_def sendAck_publishes drop_cache_def)
qed

lemma system_step_inv: "system_step lib jl st st' \<Longrightarrow> system_inv st \<Longrightarrow> system_inv st'"
proof (induction rule: system_step.induct)
  case (message st sp msg)
  then show ?case
    using sinkMsgHandler_shape [of jl sp msg st]
    by (auto simp: system_parts)
next
  case (reassembled st frame rest st')
  then show ?case by (simp add: system_inv_def shard_inv_def)
next
  case (command st d reqs params)
  then show ?case
    by (auto simp: HandleWriteCommands_def write_requests_eq Let_def simp: system_parts)
next
  case (add st md d)
  then show ?case by (simp add: AddDevice_def init_resources_inv split: sum.splits)
next
  case (update st md d)
  then show ?case by (simp add: UpdateDevice_def init_resources_inv split: sum.splits)
next
  case (health order st)
  then have "health_check order st = st"
    by (simp add: health_check_def unchecked_devices system_inv_def)
  then show ?case using health by simp
qed (auto simp: remove_inv intro: parse_step_inv timer_step_inv,
    auto simp: system_inv_def Stop_def wf_values_def wf_eids_def GetDeviceValue_def queue_ok_def shard_inv_def
      has_timeout_def split: if_splits)

end
