(* ===== verification/Service.thy ===== *)
theory Service
  imports System
begin

text \<open>
  Runs of the service from its start on, and what holds in all of them. A run begins with
  \<open>start_load\<close>; from then on the goroutines take turns, and at some point the rest of
  \<open>Start\<close> rebuilds the EID directory, once.
\<close>

section \<open>From the start on\<close>

definition boot :: "driver_state \<Rightarrow> bool" where
  "boot st \<longleftrightarrow> config_state.truncate st = initial_config \<and> SinkRawDataCh st = [] \<and> shard_initial st \<and>
     published st = [] \<and> asyncCh st = []"

lemma load_defaults_ok:
  "wf_map (load_defaults lib drs) \<and>
   (\<forall>r v. mget (load_defaults lib drs) r = Some v \<longrightarrow> period_safe r v)"
  by (induction drs rule: rev_induct) (auto simp: load_defaults_def mget_put default_period_safe split: if_splits)

lemma load_entry_inv:
  assumes "system_inv st"
  shows "system_inv (st\<lparr>resourcesMap := m, ValuesMap := mput d (load_defaults lib drs) (ValuesMap st)\<rparr>)"
proof -
  have "wf_values (st\<lparr>ValuesMap := mput d (load_defaults lib drs) (ValuesMap st)\<rparr>)"
    using assms wf_values_put [of "ValuesMap st" "load_defaults lib drs" d] load_defaults_ok [of lib drs]
    by (simp add: system_inv_def wf_values_def)
  moreover have "mget (load_defaults lib drs) ''period'' \<noteq> Some (VUint32 p)" for p
    using load_defaults_ok [of lib drs] by (auto simp: period_safe_def)
  ultimately show ?thesis
    using assms by (auto simp: system_inv_def wf_values_def wf_eids_def GetDeviceValue_def mget_put queue_ok_def
        shard_inv_def has_timeout_def)
qed

lemma init_entries_inv: "system_inv st \<Longrightarrow> system_inv (snd (init_entries lib fs dir es st))"
  by (induction lib fs dir es st rule: init_entries.induct)
    (auto simp: Let_def load_entry_inv split: sum.splits)

lemma start_load_inv: "system_inv st \<Longrightarrow> system_inv (snd (start_load lib fs mq cli st))"
proof -
  let ?r = "InitDeviceResources lib fs ''../cmd/res/devices/devices.yaml'' ''../cmd/res/profiles'' st"
  assume "system_inv st"
  then have "system_inv (snd ?r)"
    by (simp add: InitDeviceResources_def init_entries_inv split: sum.splits)
  then show "system_inv (snd (start_load lib fs mq cli st))"
    by (auto simp: start_load_def split: prod.splits option.splits)
qed

lemma UpdateSensorMapping_inv: "system_inv st \<Longrightarrow> system_inv (UpdateSensorMapping lib order st)"
proof -
  have "wf_map (map_eids lib order [])"
    by (simp add: map_eids_fold gomap.wf_puts [where kvs = "eid_pairs lib order", simplified case_prod_unfold]
        case_prod_unfold)
  then show "system_inv st \<Longrightarrow> system_inv (UpdateSensorMapping lib order st)"
    by (simp add: UpdateSensorMapping_def system_parts)
qed

lemma boot_inv: "boot st \<Longrightarrow> system_inv st"
  by (auto simp: boot_def system_inv_def initial_config_def config_state.truncate_def wf_values_def wf_eids_def
      GetDeviceValue_def queue_ok_def shard_initial_inv wf_map_def)

text \<open>The flag says whether the directory has been rebuilt.\<close>

inductive service_step :: "golib \<Rightarrow> 'j jsonlib \<Rightarrow> bool \<times> driver_state \<Rightarrow> bool \<times> driver_state \<Rightarrow> bool"
  for lib :: golib and jl :: "'j jsonlib"
where
  runs: "system_step lib jl st st' \<Longrightarrow> service_step lib jl (mapped, st) (mapped, st')"
| maps: "mset order = mset (ValuesMap st) \<Longrightarrow>
    service_step lib jl (False, st) (True, UpdateSensorMapping lib order st)"

inductive_cases service_stepE: "service_step lib jl (b, st) (b', st')"

text \<open>A run from the loaded state \<open>st1\<close> to \<open>st\<close>, with the directory rebuilt or not yet.\<close>

definition service_run :: "golib \<Rightarrow> 'j jsonlib \<Rightarrow> ('e, 'f) filesystem_scheme \<Rightarrow> 'c mqttlib \<Rightarrow>
    driver_state \<Rightarrow> bool \<times> driver_state \<Rightarrow> bool" where
  "service_run lib jl fs mq st1 s \<longleftrightarrow>
     (\<exists>host pid room cli st0 st0'. boot st0 \<and> Initialize mq host pid room None st0 = (None, Some cli, st0') \<and>
        start_load lib fs mq cli st0' = (None, st1) \<and> (service_step lib jl)\<^sup>*\<^sup>* (False, st1) s)"

lemma Initialize_boot: "boot st \<Longrightarrow> Initialize mq host pid room c st = (e, c', st') \<Longrightarrow> boot st'"
  by (auto simp: Initialize_def Let_def boot_def shard_initial_def config_state.truncate_def split: sum.splits)

lemma run_booted:
  assumes "service_run lib jl fs mq st1 s"
  obtains st0 cli where "boot st0" "start_load lib fs mq cli st0 = (None, st1)"
  using assms Initialize_boot that unfolding service_run_def by metis

lemma run_loaded:
  assumes "service_run lib jl fs mq st1 s"
  shows "system_inv st1"
proof -
  obtain st0 cli where "boot st0" "start_load lib fs mq cli st0 = (None, st1)" using assms by (rule run_booted)
  then have "st1 = snd (start_load lib fs mq cli st0)" "system_inv st0" by (simp_all add: boot_inv)
  then show ?thesis by (simp add: start_load_inv)
qed

lemma service_step_inv: "service_step lib jl s s' \<Longrightarrow> system_inv (snd s) \<Longrightarrow> system_inv (snd s')"
  by (induction rule: service_step.induct) (auto dest: system_step_inv UpdateSensorMapping_inv)

text \<open>Induction over a run: what the loaded state has and every step keeps, all states have.\<close>

lemma run_induct [consumes 1, case_names loaded step]:
  assumes "service_run lib jl fs mq st1 s" "P (False, st1)"
    and "\<And>s s'. service_step lib jl s s' \<Longrightarrow> system_inv (snd s) \<Longrightarrow> P s \<Longrightarrow> P s'"
  shows "P s"
proof -
  have "(service_step lib jl)\<^sup>*\<^sup>* (False, st1) s" using assms(1) by (auto simp: service_run_def)
  then have "system_inv (snd s) \<and> P s"
  proof (induction rule: rtranclp_induct)
    case (step t t')
    then show ?case using service_step_inv [OF step(2)] assms(3) [OF step(2)] by blast
  qed (simp add: run_loaded [OF assms(1)] assms(2))
  then show ?thesis ..
qed

lemma run_inv: "service_run lib jl fs mq st1 (mapped, st) \<Longrightarrow> system_inv st"
  using run_induct [of lib jl fs mq st1 "(mapped, st)" "\<lambda>s. system_inv (snd s)"]
  by (auto dest: run_loaded service_step_inv)

text \<open>\<open>Start\<close> without interruption is such a run, and steps extend runs.\<close>

lemma run_step:
  assumes "service_run lib jl fs mq st1 (mapped, st)" "system_step lib jl st st'"
  shows "service_run lib jl fs mq st1 (mapped, st')"
proof -
  have "service_step lib jl (mapped, st) (mapped, st')" using assms(2) by (rule service_step.runs)
  then show ?thesis using assms(1) unfolding service_run_def by (meson rtranclp.rtrancl_into_rtrancl)
qed

lemma Start_run:
  assumes "boot st" "Initialize mq host pid room None st = (None, Some cli, st0)"
    and "\<And>m. mset (order m) = mset m" "Start lib fs mq cli order st0 = (None, st')"
  shows "\<exists>st1. service_run lib jl fs mq st1 (True, st')"
proof -
  obtain st1 where l: "start_load lib fs mq cli st0 = (None, st1)"
    and m: "st' = UpdateSensorMapping lib (order (ValuesMap st1)) st1"
    using assms(4) by (auto simp: Start_def split: prod.splits option.splits)
  have "(service_step lib jl)\<^sup>*\<^sup>* (False, st1) (True, st')"
    unfolding m by (rule r_into_rtranclp, rule service_step.maps, rule assms(3))
  then show ?thesis using assms(1,2) l unfolding service_run_def by blast
qed

section \<open>What the service sends\<close>

lemma init_resources_published:
  "published (init_resources lib d drs g) = published (g :: 'a gateway_state_scheme)"
  by (induction drs rule: rev_induct) (simp_all add: init_resources_def DeviceInit_is_Set)

lemma write_commands_sent:
  fixes st :: "'a driver_state_scheme"
  assumes "sent_ok st"
  shows "sent_ok (snd (HandleWriteCommands d reqs params st))"
proof -
  have "service_frame f" if "f \<in> set (List.map_filter (requested_frame now) rs)" for f now rs
    using that by (auto simp: map_filter_def requested_frame_def service_frame_def command_frame_readable
        split: if_splits)
  then show ?thesis
    using assms by (auto simp: HandleWriteCommands_def write_requests_eq Let_def sent_ok_def)
qed

lemma system_step_sent: "system_step lib jl st st' \<Longrightarrow> system_inv st \<Longrightarrow> sent_ok st \<Longrightarrow> sent_ok st'"
proof (induction rule: system_step.induct)
  case (message st sp msg)
  then show ?case using sinkMsgHandler_shape [of jl sp msg st] by (auto simp: sent_ok_def)
next
  case (parse st frame rest order st')
  then show ?case by (intro parse_frame_sent [OF parse(2)]) (simp_all add: system_inv_def sent_ok_def)
next
  case (timeout tm st)
  let ?ack = "Frame_Bytes (ack_frame (tm_sensorKey tm) (tm_SSEQ tm) False (tm_PSEQ tm))"
  have "sent_ok (st\<lparr>published := published st @ [downlink ?ack (clock st)]\<rparr>)"
    using timeout by (intro sent_ok_append) (auto simp: service_frame_def)
  then show ?case
    by (rule sent_ok_cong) (simp_all add: run_timeout_def sendAck_publishes drop_cache_def)
next
  case (reassembled st frame rest st')
  then show ?case by (simp add: system_inv_def shard_inv_def)
next
  case (command st d reqs params)
  then show ?case by (simp add: write_commands_sent)
next
  case (health order st)
  then show ?case by (simp add: health_check_def unchecked_devices system_inv_def)
qed (auto simp: sent_ok_def timer_fires_def AddDevice_def UpdateDevice_def RemoveDevice_def DeleteDeviceValues_def
    DeleteSensorIDMappingsByDevice_def Stop_def init_resources_published init_resources_frame split: sum.splits option.splits if_splits)

lemma init_entries_published:
  "published (snd (init_entries lib fs dir es g)) = published (g :: 'a gateway_state_scheme)"
  by (induction lib fs dir es g rule: init_entries.induct) (simp_all add: Let_def split: sum.splits)

lemma init_entries_WriteChan: "WriteChan (snd (init_entries lib fs dir es st)) = WriteChan st"
  by (induction lib fs dir es st rule: init_entries.induct) (simp_all add: Let_def split: sum.splits)

lemma start_load_frame:
  fixes st :: "'a driver_state_scheme"
  shows "published (snd (start_load lib fs mq cli st)) = published st"
    "WriteChan (snd (start_load lib fs mq cli st)) = WriteChan st"
proof -
  let ?r = "InitDeviceResources lib fs ''../cmd/res/devices/devices.yaml'' ''../cmd/res/profiles'' st"
  have "published (snd ?r) = published st" "WriteChan (snd ?r) = WriteChan st"
    by (simp_all add: InitDeviceResources_def init_entries_published init_entries_WriteChan split: sum.splits)
  then show "published (snd (start_load lib fs mq cli st)) = published st"
    "WriteChan (snd (start_load lib fs mq cli st)) = WriteChan st"
    by (auto simp: start_load_def split: prod.splits option.splits)
qed

lemma run_sent: "service_run lib jl fs mq st1 (mapped, st) \<Longrightarrow> sent_ok st"
proof -
  assume run: "service_run lib jl fs mq st1 (mapped, st)"
  then obtain st0 cli where b: "boot st0" and "start_load lib fs mq cli st0 = (None, st1)" by (rule run_booted)
  then have "st1 = snd (start_load lib fs mq cli st0)" by simp
  with b have loaded: "sent_ok st1"
    by (simp add: sent_ok_def start_load_frame boot_def config_state.truncate_def initial_config_def)
  from run have "sent_ok (snd (mapped, st))"
  proof (induction rule: run_induct)
    case (step s s')
    from step(1) show ?case
    proof cases
      case (runs st st' mapped)
      then show ?thesis using system_step_sent [OF runs(3)] step(2,3) by simp
    next
      case (maps order st)
      then show ?thesis using step(3) by (simp add: sent_ok_def UpdateSensorMapping_def)
    qed
  qed (simp add: loaded)
  then show ?thesis by simp
qed

text \<open>Progress of the parser.\<close>

lemma parse_step_done:
  assumes "system_inv st" "SinkRawDataCh st = frame # rest"
    and "parse_frame (Some (AsyncReporting visit)) frame (st\<lparr>SinkRawDataCh := rest\<rparr>) = Done st'"
  shows "SinkRawDataCh st' = rest \<and> async_room st' = async_room st"
  using parse_frame_owned [OF assms(3)] assms(1)
  by (auto simp: system_inv_def owned_def split: option.splits)

lemma parse_step_blocked:
  assumes "system_inv st"
    and "parse_frame (Some (AsyncReporting visit)) frame (st\<lparr>SinkRawDataCh := rest\<rparr>) = Blocked"
  shows "length (asyncCh st) = async_room st \<or> length (WriteChan st) = 100"
  using parse_frame_Blocked [OF assms(2)] assms(1) by (auto simp: system_inv_def write_capacity_def)

section \<open>Draining the queue\<close>

text \<open>The parser and the SDK on their own: no new message, command or timer.\<close>

inductive drain_step :: "driver_state \<Rightarrow> driver_state \<Rightarrow> bool" where
  parse: "SinkRawDataCh st = frame # rest \<Longrightarrow>
    parse_frame (Some (AsyncReporting order)) frame (st\<lparr>SinkRawDataCh := rest\<rparr>) = Done st' \<Longrightarrow> drain_step st st'"
| consume: "asyncCh st = v # vs \<Longrightarrow> drain_step st (st\<lparr>asyncCh := vs\<rparr>)"

inductive_cases drain_stepE: "drain_step st st'"

lemma drain_step_system: "drain_step st st' \<Longrightarrow> system_step lib jl st st'"
  by (auto elim!: drain_stepE intro: system_step.intros)

lemma drain_step_keeps:
  assumes "drain_step st st'" "system_inv st"
  shows "system_inv st' \<and> async_room st' = async_room st"
proof -
  have "async_room st' = async_room st"
    using assms by (auto elim!: drain_stepE dest: parse_step_done)
  moreover have "system_step lib jl st st'" for lib and jl :: "unit jsonlib" by (rule drain_step_system [OF assms(1)])
  ultimately show ?thesis using system_step_inv assms(2) by blast
qed

lemma drain_steps_keep:
  "drain_step\<^sup>*\<^sup>* st st' \<Longrightarrow> system_inv st \<Longrightarrow> system_inv st' \<and> async_room st' = async_room st"
proof (induction rule: rtranclp_induct)
  case (step s s')
  then show ?case using drain_step_keeps [OF step(2)] by simp
qed simp

text \<open>A frame leaves the queue or a report leaves the channel.\<close>

definition drain_order :: "(driver_state \<times> driver_state) set" where
  "drain_order = measures [\<lambda>st. length (SinkRawDataCh st), \<lambda>st. length (asyncCh st)]"

lemma drain_step_decreases:
  assumes "drain_step st st'" "system_inv st"
  shows "(st', st) \<in> drain_order"
  using assms(1)
proof (cases rule: drain_step.cases)
  case (parse frame rest order)
  then show ?thesis using parse_step_done [OF assms(2) parse(1,2)] by (simp add: drain_order_def)
qed (simp add: drain_order_def)

text \<open>What stops the parser when the SDK takes every report.\<close>

definition stuck_frame :: "driver_state \<Rightarrow> bool" where
  "stuck_frame st \<longleftrightarrow> (\<exists>frame rest. SinkRawDataCh st = frame # rest \<and>
     (length (WriteChan st) = 100 \<or>
      (\<exists>order. parse_frame (Some (AsyncReporting order)) frame (st\<lparr>SinkRawDataCh := rest\<rparr>) = Panic)))"

lemma drain_end:
  assumes "system_inv st" "0 < async_room st" "\<nexists>st'. drain_step st st'"
  shows "asyncCh st = [] \<and> (SinkRawDataCh st = [] \<or> stuck_frame st)"
proof (cases "SinkRawDataCh st")
  case Nil
  then show ?thesis using assms(3) drain_step.consume by (cases "asyncCh st") auto
next
  case (Cons frame rest)
  have q: "asyncCh st = []" using assms(3) drain_step.consume by (cases "asyncCh st") auto
  let ?run = "parse_frame (Some (AsyncReporting (\<lambda>vs. vs))) frame (st\<lparr>SinkRawDataCh := rest\<rparr>)"
  show ?thesis
  proof (cases ?run)
    case (Done st')
    then show ?thesis using drain_step.parse [OF Cons] assms(3) by blast
  next
    case Panic
    then show ?thesis using q Cons by (auto simp: stuck_frame_def)
  next
    case Blocked
    then show ?thesis using q Cons parse_step_blocked [OF assms(1)] assms(2) by (fastforce simp: stuck_frame_def)
  qed
qed

section \<open>An abstract view of the service\<close>

text \<open>
  The promise of the service as a store: the values of the devices and the EID directory. A
  step leaves the view alone, adds values of the parser to the row of a device in the
  directory, gives a device defaults of its profile, or removes a device from both. Once, the
  directory is rebuilt: then it knows exactly the EIDs of the devices, each for a device that
  has it.
\<close>

type_synonym view = "(string \<Rightarrow> string \<Rightarrow> gvalue option) \<times> (string \<Rightarrow> string option)"

definition service_view :: "'a config_state_scheme \<Rightarrow> view" where
  "service_view st = (\<lambda>d r. GetDeviceValue d r st, \<lambda>e. LookupDeviceName e st)"

inductive view_step :: "golib \<Rightarrow> view \<Rightarrow> view \<Rightarrow> bool" for lib where
  quiet: "view_step lib s s"
| frame: "dir e = Some d \<Longrightarrow> (\<And>r v. row r = Some v \<Longrightarrow> parser_write r v) \<Longrightarrow>
    view_step lib (vals, dir) (vals(d := vals d ++ row), dir)"
| provision: "(\<And>r v. row r = Some v \<Longrightarrow> \<exists>s vt. v = parseDefaultValue lib s vt) \<Longrightarrow>
    view_step lib (vals, dir) (vals(d := vals d ++ row), dir)"
| remove: "view_step lib (vals, dir) (vals(d := Map.empty), \<lambda>e. if dir e = Some d then None else dir e)"

definition view_eid :: "golib \<Rightarrow> (string \<Rightarrow> gvalue option) \<Rightarrow> string option" where
  "view_eid lib row =
     (case row ''eid'' of
        None \<Rightarrow> None
      | Some v \<Rightarrow> if eid_text lib v = [] then None else Some (eid_text lib v))"

inductive spec_step :: "golib \<Rightarrow> bool \<times> view \<Rightarrow> bool \<times> view \<Rightarrow> bool" for lib where
  runs: "view_step lib v v' \<Longrightarrow> spec_step lib (mapped, v) (mapped, v')"
| maps: "(\<And>e d. dir' e = Some d \<Longrightarrow> view_eid lib (vals d) = Some e) \<Longrightarrow>
    (\<And>e d. view_eid lib (vals d) = Some e \<Longrightarrow> dir' e \<noteq> None) \<Longrightarrow>
    spec_step lib (False, vals, dir) (True, vals, dir')"

lemma same_view: "service_view st' = service_view st \<Longrightarrow> view_step lib (service_view st) (service_view st')"
  by (simp add: view_step.quiet)

lemma service_view_cong:
  "ValuesMap st' = ValuesMap st \<Longrightarrow> SensorIDToDeviceName st' = SensorIDToDeviceName st \<Longrightarrow>
   service_view st' = service_view st"
  by (simp add: service_view_def GetDeviceValue_def LookupDeviceName_def)

lemma owned_view:
  assumes "owned sid d st st'"
  shows "view_step lib (service_view st) (service_view st')"
proof -
  obtain row where row: "\<And>r v. row r = Some v \<Longrightarrow> parser_write r v"
    "(\<lambda>r. GetDeviceValue d r st') = (\<lambda>r. GetDeviceValue d r st) ++ row"
    using assms by (auto simp: owned_def row_grown_def)
  have "service_view st' = ((\<lambda>d r. GetDeviceValue d r st)(d := (\<lambda>r. GetDeviceValue d r st) ++ row),
      \<lambda>e. LookupDeviceName e st)"
    using assms row(2) by (auto simp: service_view_def owned_def LookupDeviceName_def fun_eq_iff)
  moreover have "LookupDeviceName sid st = Some d" using assms by (simp add: owned_def)
  ultimately show ?thesis
    using view_step.frame [of "\<lambda>e. LookupDeviceName e st" sid d row lib "\<lambda>d r. GetDeviceValue d r st"] row(1)
    by (simp add: service_view_def)
qed

lemma profile_default_parsed: "profile_default lib drs r = Some v \<Longrightarrow> \<exists>s vt. v = parseDefaultValue lib s vt"
  unfolding profile_default_def by (drule map_of_SomeD) (fastforce intro: exI)

lemma init_resources_view: "view_step lib (service_view st) (service_view (init_resources lib d drs st))"
proof -
  have "service_view (init_resources lib d drs st) =
      ((\<lambda>d r. GetDeviceValue d r st)(d := (\<lambda>r. GetDeviceValue d r st) ++ profile_default lib drs),
       \<lambda>e. LookupDeviceName e st)"
    by (auto simp: service_view_def init_resources_get LookupDeviceName_def fun_eq_iff map_add_def split: option.splits)
  then show ?thesis
    using view_step.provision [of "profile_default lib drs" lib "\<lambda>d r. GetDeviceValue d r st"] profile_default_parsed
    by (simp add: service_view_def)
qed

lemma remove_view:
  assumes "system_inv st"
  shows "view_step lib (service_view st) (service_view (snd (RemoveDevice d st)))"
proof (cases "d \<in> known_devices st")
  case True
  have "service_view (snd (RemoveDevice d st)) =
      ((\<lambda>d r. GetDeviceValue d r st)(d := Map.empty), \<lambda>e. if LookupDeviceName e st = Some d then None else LookupDeviceName e st)"
    using assms by (auto simp: service_view_def RemoveDevice_get [OF True] RemoveDevice_lookup [OF True] system_inv_def fun_eq_iff)
  then show ?thesis
    using view_step.remove [of lib "\<lambda>d r. GetDeviceValue d r st" "\<lambda>e. LookupDeviceName e st" d]
    by (simp add: service_view_def)
qed (simp add: RemoveDevice_unknown view_step.quiet)

lemma parse_view:
  assumes "system_inv st" "SinkRawDataCh st = frame # rest"
    and "parse_frame (Some (AsyncReporting order)) frame (st\<lparr>SinkRawDataCh := rest\<rparr>) = Done st'"
  shows "view_step lib (service_view st) (service_view st')"
proof -
  let ?st = "st\<lparr>SinkRawDataCh := rest\<rparr>"
  have v: "service_view ?st = service_view st" by (rule service_view_cong) simp_all
  have "shard_inv ?st" using assms(1) by (simp add: system_inv_def)
  from parse_frame_owned [OF assms(3) this] show ?thesis
    by (auto simp: v dest!: owned_view [where lib = lib] intro: view_step.quiet split: option.splits)
qed

lemma system_step_view:
  "system_step lib jl st st' \<Longrightarrow> system_inv st \<Longrightarrow> view_step lib (service_view st) (service_view st')"
proof (induction rule: system_step.induct)
  case (message st sp msg)
  then show ?case using sinkMsgHandler_shape [of jl sp msg st]
    by (auto intro!: same_view service_view_cong)
next
  case (reassembled st frame rest st')
  then show ?case by (simp add: system_inv_def shard_inv_def)
next
  case (command st d reqs params)
  then show ?case
    by (intro same_view service_view_cong) (simp_all add: HandleWriteCommands_def write_requests_eq Let_def)
next
  case (health order st)
  then show ?case by (simp add: health_check_def unchecked_devices system_inv_def view_step.quiet)
qed (auto simp: parse_view remove_view AddDevice_def UpdateDevice_def init_resources_view view_step.quiet Stop_def
    timer_fires_def run_timeout_def sendAck_publishes drop_cache_def intro!: same_view service_view_cong
    split: sum.splits if_splits)

lemma view_eid_row: "mget (ValuesMap st) d = Some rm \<Longrightarrow> view_eid lib (\<lambda>r. GetDeviceValue d r st) = device_eid lib rm"
  by (simp add: view_eid_def device_eid_def GetDeviceValue_def Let_def cong: option.case_cong)

lemma mapping_view:
  assumes "mset order = mset (ValuesMap st)" "system_inv st"
  shows "spec_step lib (False, service_view st) (True, service_view (UpdateSensorMapping lib order st))"
proof -
  let ?dir = "\<lambda>e. LookupDeviceName e (UpdateSensorMapping lib order st)"
  have mem: "(e, d) \<in> set (eid_pairs lib order) \<longleftrightarrow> view_eid lib (\<lambda>r. GetDeviceValue d r st) = Some e" for e d
  proof -
    have "(d, rm) \<in> set order \<longleftrightarrow> mget (ValuesMap st) d = Some rm" for rm
      using assms mset_eq_setD [OF assms(1)] by (simp add: system_inv_def wf_values_def wf_map_in_iff)
    then have "(e, d) \<in> set (eid_pairs lib order) \<longleftrightarrow>
        (\<exists>rm. mget (ValuesMap st) d = Some rm \<and> device_eid lib rm = Some e)"
      by (auto simp: eid_pairs_mem)
    then show ?thesis
      by (cases "mget (ValuesMap st) d")
        (auto simp: view_eid_row, simp add: view_eid_def GetDeviceValue_def)
  qed
  have "service_view (UpdateSensorMapping lib order st) = (\<lambda>d r. GetDeviceValue d r st, ?dir)"
    by (simp add: service_view_def GetDeviceValue_def UpdateSensorMapping_def)
  moreover have "spec_step lib (False, service_view st) (True, \<lambda>d r. GetDeviceValue d r st, ?dir)"
    unfolding service_view_def
  proof (rule spec_step.maps)
    show "view_eid lib (\<lambda>r. GetDeviceValue d r st) = Some e" if "?dir e = Some d" for e d
      using that map_of_SomeD mem by (fastforce simp: directory_after_update)
    show "?dir e \<noteq> None" if "view_eid lib (\<lambda>r. GetDeviceValue d r st) = Some e" for e d
      using that by (auto simp: directory_after_update map_of_eq_None_iff simp flip: mem intro: rev_image_eqI)
  qed
  ultimately show ?thesis by simp
qed

section \<open>Properties\<close>

text \<open>C2: from the moment the service has loaded its devices, whatever messages arrive, whenever
  the parser, the timers and the SDK run, and whatever commands, device changes, stops and
  health checks come in between, in any order and with the directory rebuilt at any point: the value store and the EID directory stay
  well formed, the raw-frame channel holds at most 128 frames, the AT channel at most 100
  commands and the SDK channel at most its capacity, no reassembled message exists, every
  reassembly cache has a pending timeout, no period is ever a uint32, and therefore the health
  check never changes anything.\<close>

theorem system_invariant:
  assumes "service_run lib jl fs mq st1 (mapped, st)"
  shows "wf_values st \<and> wf_eids st \<and> length (SinkRawDataCh st) \<le> 128 \<and> length (WriteChan st) \<le> 100 \<and>
    length (asyncCh st) \<le> async_room st \<and> SDUCh st = [] \<and>
    (\<forall>k c. mget (sduCaches st) k = Some c \<longrightarrow> has_timeout st k c) \<and>
    (\<forall>d p. GetDeviceValue d ''period'' st \<noteq> Some (VUint32 p)) \<and> (\<forall>order. health_check order st = st)"
proof -
  have st: "system_inv st" by (rule run_inv [OF assms])
  then have "health_check order st = st" for order
    by (simp add: health_check_def unchecked_devices system_inv_def)
  with st show ?thesis
    by (auto simp: system_inv_def queue_ok_def raw_capacity_def write_capacity_def shard_inv_def)
qed


text \<open>C6: in every state of a run of the service, every
  message the service has published goes to the one downlink topic and module, and its frame
  either carries the module's sensor ID, a status or control type and a checksum over
  everything before it, so that a receiver which checks frames as this service does accepts
  it, or it is the acknowledgement of a fragment, whose layout is another. Every queued AT
  command is a reset command with such a checksum.\<close>

theorem sent_messages_readable:
  assumes "service_run lib jl fs mq st1 (mapped, st)"
  shows "(\<forall>m \<in> set (published st). \<exists>f t. m = downlink f t \<and> service_frame f) \<and>
    (\<forall>c \<in> set (WriteChan st). \<exists>eid t. c = reset_command eid t)"
  using run_sent [OF assms] by (simp add: sent_ok_def)



definition demo_boot :: driver_state where
  "demo_boot = shard_state.extend demo_shards \<lparr>asyncCh = [], async_room = 16\<rparr>"

lemma demo_boot: "boot demo_boot"
  by (simp add: boot_def demo_boot_def demo_shards_def demo_gateway_def shard_state.defs gateway_state.defs
      config_state.defs shard_initial_def initial_config_def)

definition demo_files :: "unit filesystem" where
  "demo_files = \<lparr>fs_ReadFile = (\<lambda>_. Inr []), fs_Join = (@),
     yaml_devices = (\<lambda>_. Inr [\<lparr>de_Name = ''D1'', de_ProfileName = ''P''\<rparr>]),
     yaml_profile = (\<lambda>_. Inr [\<lparr>dr_Name = ''period'', dr_IsHidden = False, dr_Description = [],
       dr_Properties = \<lparr>rp_ValueType = ''Uint16'', rp_ReadWrite = ''R'', rp_Units = ''s'', rp_DefaultValue = ''60''\<rparr>\<rparr>,
       \<lparr>dr_Name = ''eid'', dr_IsHidden = False, dr_Description = [],
       dr_Properties = \<lparr>rp_ValueType = ''String'', rp_ReadWrite = ''R'', rp_Units = [], rp_DefaultValue = ''238A08262319''\<rparr>\<rparr>])\<rparr>"

definition demo_mqtt :: "unit mqttlib" where
  "demo_mqtt = \<lparr>mq_NewClient = (\<lambda>_. ()), mq_Connect = (\<lambda>_ _. TokenDone), mq_Subscribe = (\<lambda>_ _ _. None),
     mq_IsConnectionOpen = (\<lambda>_. True)\<rparr>"

lemma demo_start:
  obtains st1 where "service_run demo_lib demo_json demo_files demo_mqtt st1 (False, st1)"
    "ValuesMap st1 = [(''D1'', [(''period'', VUint16 60), (''eid'', VString ''238A08262319'')])]" "SinkRawDataCh st1 = []" "WriteChan st1 = []"
    "asyncCh st1 = []" "async_room st1 = 16" "published st1 = []"
proof -
  have v: "ValuesMap demo_boot = []" "resourcesMap demo_boot = []" "SinkRawDataCh demo_boot = []"
    "WriteChan demo_boot = []" "asyncCh demo_boot = []" "async_room demo_boot = 16" "published demo_boot = []"
    by (simp_all add: demo_boot_def demo_shards_def demo_gateway_def shard_state.defs gateway_state.defs
        config_state.defs initial_config_def)
  obtain st1 where st1: "start_load demo_lib demo_files demo_mqtt () demo_boot = (None, st1)"
    "ValuesMap st1 = [(''D1'', [(''period'', VUint16 60), (''eid'', VString ''238A08262319'')])]" "SinkRawDataCh st1 = []"
    "WriteChan st1 = []" "asyncCh st1 = []" "async_room st1 = 16" "published st1 = []"
    by (rule that, simp add: start_load_def InitDeviceResources_def demo_files_def Let_def
        load_defaults_def parseDefaultValue_def ParseUint_def digit_val_def SubscribeSinkData_def demo_mqtt_def v,
        simp_all add: v)
  have "service_run demo_lib demo_json demo_files demo_mqtt st1 (False, st1)"
    unfolding service_run_def
  proof (intro exI conjI)
    show "Initialize demo_mqtt [] 1 16 None demo_boot = (None, Some (), demo_boot)"
      by (simp add: Initialize_def NewClient_def demo_mqtt_def v)
  qed (rule demo_boot st1(1) rtranclp.rtrancl_refl)+
  from this st1(2-) show thesis by (rule that)
qed

lemma demo_message:
  "SinkRawDataCh st = [] \<Longrightarrow>
   sinkMsgHandler demo_json (\<lambda>_. []) [0x7B] st = st\<lparr>SinkRawDataCh := [mk_slice [1, 2, 3]]\<rparr>"
  by (simp add: sinkMsgHandler_def demo_json_def payloadBytes_def decodeHexFlexible_upper raw_capacity_def mk_slice_def)

theorem system_invariant_witness:
  "\<exists>st1. service_run demo_lib demo_json demo_files demo_mqtt st1 (False, st1) \<and>
     GetDeviceValue ''D1'' ''period'' st1 = Some (VUint16 60) \<and>
     (let st = health_check [''D1''] (sinkMsgHandler demo_json (\<lambda>_. []) [0x7B] st1) in
      wf_values st \<and> length (SinkRawDataCh st) \<le> 128)"
proof -
  obtain st1 where st1: "service_run demo_lib demo_json demo_files demo_mqtt st1 (False, st1)"
    "ValuesMap st1 = [(''D1'', [(''period'', VUint16 60), (''eid'', VString ''238A08262319'')])]"
    by (rule demo_start)
  let ?st2 = "sinkMsgHandler demo_json (\<lambda>_. []) [0x7B] st1"
  have k: "set [''D1''] = known_devices ?st2"
    using sinkMsgHandler_shape [of demo_json "\<lambda>_. []" "[0x7B]" st1] st1(2) by (auto simp: known_devices_def)
  have "service_run demo_lib demo_json demo_files demo_mqtt st1 (False, ?st2)" by (rule run_step [OF st1(1) system_step.message])
  then have "service_run demo_lib demo_json demo_files demo_mqtt st1 (False, health_check [''D1''] ?st2)" by (rule run_step [OF _ system_step.health [OF k]])
  from system_invariant [OF this] show ?thesis
    using st1 by (auto simp: Let_def GetDeviceValue_def)
qed


theorem sent_messages_readable_witness:
  "\<exists>(st :: driver_state) f t. published st = [downlink f t] \<and> service_frame f"
proof -
  obtain st1 where st1: "service_run demo_lib demo_json demo_files demo_mqtt st1 (False, st1)"
    "ValuesMap st1 = [(''D1'', [(''period'', VUint16 60), (''eid'', VString ''238A08262319'')])]" "published st1 = []"
    by (rule demo_start)
  let ?req = "\<lparr>cr_DeviceResourceName = ''Reset_Set'', cr_Type = ''Int8''\<rparr>"
  let ?cv = "\<lparr>cv_DeviceResourceName = ''Reset_Set'', cv_Type = ''Int8'', cv_Value = VInt8 1, cv_Origin = 0\<rparr>"
  let ?st = "snd (HandleWriteCommands ''D1'' [?req] [?cv] st1)"
  have "service_run demo_lib demo_json demo_files demo_mqtt st1 (False, ?st)" by (rule run_step [OF st1(1) system_step.command])
  note sent = sent_messages_readable [OF this]
  have "GetDeviceValue ''D1'' ''eid'' st1 = Some (VString ''238A08262319'')" by (simp add: GetDeviceValue_def st1)
  then have p: "published ?st = [downlink (BuildResetRequest module_id) (clock st1)]"
    by (simp add: HandleWriteCommands_def write_requests_eq List.map_filter_def requested_frame_def
        command_frames_def Int8Value_def st1 Let_def)
  then have "downlink (BuildResetRequest module_id) (clock st1) \<in> set (published ?st)" by (simp only: p list.set insertI1)
  from bspec [OF conjunct1 [OF sent] this] obtain f t
    where "downlink (BuildResetRequest module_id) (clock st1) = downlink f t" "service_frame f" by (elim exE conjE)
  with p have "published ?st = [downlink f t] \<and> service_frame f" by (simp only:)
  then show ?thesis by (intro exI)
qed



end
