(* ===== verification/Interleave.thy ===== *)
theory Interleave
  imports Driver "HOL-Library.Sublist"
begin

text \<open>
  Operations on the stores that overlap. The parser holds no lock while it stores the items
  of a frame, and the SDK callbacks \<open>AddDevice\<close>, \<open>UpdateDevice\<close> and \<open>RemoveDevice\<close> hold none
  over their whole run either: what is atomic is a single access, \<open>SetDeviceValue\<close>,
  \<open>DeviceInit\<close> or \<open>DeleteDeviceValues\<close> under the lock of \<open>config/config.go\<close>, and the
  clean-up of the EID directory. Here each operation is the list of its accesses, and the
  runs of two operations at once are the shuffles of their lists.
\<close>

section \<open>Accesses\<close>

datatype access = Put string string gvalue | DropValues string | DropEids string

fun access_run :: "access \<Rightarrow> 'a config_state_scheme \<Rightarrow> 'a config_state_scheme" where
  "access_run (Put d r v) st = SetDeviceValue d r v st"
| "access_run (DropValues d) st = snd (DeleteDeviceValues d st)"
| "access_run (DropEids d) st = DeleteSensorIDMappingsByDevice d st"

fun access_device :: "access \<Rightarrow> string" where
  "access_device (Put d r v) = d"
| "access_device (DropValues d) = d"
| "access_device (DropEids d) = d"

text \<open>What belongs to a device: its values and the EIDs that name it.\<close>

type_synonym device_row = "(string \<Rightarrow> gvalue option) \<times> string set"

definition row_of :: "string \<Rightarrow> 'a config_state_scheme \<Rightarrow> device_row" where
  "row_of d st = (\<lambda>r. GetDeviceValue d r st, {e. LookupDeviceName e st = Some d})"

fun row_access :: "access \<Rightarrow> device_row \<Rightarrow> device_row" where
  "row_access (Put d r v) (vs, es) = (vs(r \<mapsto> v), es)"
| "row_access (DropValues d) (vs, es) = (Map.empty, es)"
| "row_access (DropEids d) (vs, es) = (vs, {})"

section \<open>Stores in which every access belongs to one row\<close>

locale row_store =
  fixes run :: "'op \<Rightarrow> 's \<Rightarrow> 's" and act :: "'op \<Rightarrow> 'r \<Rightarrow> 'r" and key :: "'op \<Rightarrow> 'k" and row :: "'k \<Rightarrow> 's \<Rightarrow> 'r"
    and inv :: "'s \<Rightarrow> bool"
  assumes keeps: "inv s \<Longrightarrow> inv (run op s)"
    and row_run: "inv s \<Longrightarrow> row k (run op s) = (if key op = k then act op (row k s) else row k s)"
begin

lemma runs_keep: "inv s \<Longrightarrow> inv (fold run ops s)"
  by (induction ops arbitrary: s) (simp_all add: keeps)

lemma row_runs:
  "inv s \<Longrightarrow> row k (fold run ops s) = fold act (filter (\<lambda>op. key op = k) ops) (row k s)"
  by (induction ops arbitrary: s) (simp_all add: keeps row_run)

text \<open>Operations on different rows may overlap in any way: it is as if one came after the other.\<close>

lemma shuffle_serial:
  assumes "inv s" "zs \<in> shuffles xs ys" "\<And>x. x \<in> set xs \<Longrightarrow> key x = i" "\<And>y. y \<in> set ys \<Longrightarrow> key y = j" "i \<noteq> j"
  shows "row k (fold run zs s) = row k (fold run ys (fold run xs s))"
proof -
  let ?f = "filter (\<lambda>op. key op = k)"
  have "?f zs \<in> shuffles (?f xs) (?f ys)"
    using assms(2) by (auto simp: filter_shuffles [symmetric])
  moreover have "?f xs = [] \<or> ?f ys = []"
    using assms(3-5) by (auto simp: filter_empty_conv)
  ultimately have "?f zs = ?f xs @ ?f ys" by auto
  then show ?thesis using assms(1) by (simp add: row_runs runs_keep)
qed

end

lemma wf_eids_access: "wf_eids st \<Longrightarrow> wf_eids (access_run a st)"
  by (cases a) (simp_all add: wf_eids_def DeleteDeviceValues_def DeleteSensorIDMappingsByDevice_def gomap.wf_dels
      split: option.splits)

lemma row_of_access:
  assumes "wf_eids st"
  shows "row_of k (access_run a st) = (if access_device a = k then row_access a (row_of k st) else row_of k st)"
proof (cases a)
  case (Put d r v)
  then show ?thesis by (auto simp: row_of_def SetDeviceValue_get LookupDeviceName_def fun_eq_iff)
next
  case (DropValues d)
  then show ?thesis
    by (auto simp: row_of_def DeleteDeviceValues_def GetDeviceValue_def LookupDeviceName_def mget_del fun_eq_iff
        split: option.splits)
next
  case (DropEids d)
  have "GetDeviceValue k r (DeleteSensorIDMappingsByDevice d st) = GetDeviceValue k r st" for r
    by (simp add: GetDeviceValue_def DeleteSensorIDMappingsByDevice_def)
  then show ?thesis
    using DropEids by (auto simp: row_of_def DeleteSensorIDMappings_lookup [OF assms] split: if_splits)
qed

interpretation rows: row_store access_run row_access access_device row_of "wf_eids :: 'a config_state_scheme \<Rightarrow> bool"
  by unfold_locales (auto simp: wf_eids_access row_of_access)

section \<open>The operations as lists of accesses\<close>

definition put_all :: "string \<Rightarrow> (string \<times> gvalue) list \<Rightarrow> access list" where
  "put_all d = map (\<lambda>(r, v). Put d r v)"

lemma put_all_device: "a \<in> set (put_all d nvs) \<Longrightarrow> access_device a = d"
  by (auto simp: put_all_def)

lemma put_all_split: "put_all d nvs = p @ q \<Longrightarrow> \<exists>a b. nvs = a @ b \<and> p = put_all d a \<and> q = put_all d b"
  unfolding put_all_def map_eq_append_conv by metis

lemma put_all_row: "fold row_access (put_all d nvs) (vs, es) = (vs ++ last_value nvs, es)"
  by (induction nvs arbitrary: vs) (auto simp: put_all_def fun_eq_iff map_add_def split: option.splits)

text \<open>A business frame: the receive time, then the decoded items.\<close>

definition frame_accesses :: "string \<Rightarrow> int \<Rightarrow> wire_item list \<Rightarrow> access list" where
  "frame_accesses d now its = put_all d ((''lastDataTimestamp'', VInt64 (of_int now)) # decoded its)"

text \<open>The callbacks of the SDK for devices.\<close>

datatype device_call = Add string | Update string | Remove string

fun call_device :: "device_call \<Rightarrow> string" where
  "call_device (Add d) = d"
| "call_device (Update d) = d"
| "call_device (Remove d) = d"

fun call_run :: "golib \<Rightarrow> ('e, 'f) metadata_scheme \<Rightarrow> device_call \<Rightarrow>
    'a config_state_scheme \<Rightarrow> 'a config_state_scheme" where
  "call_run lib md (Add d) st = snd (AddDevice lib md d st)"
| "call_run lib md (Update d) st = snd (UpdateDevice lib md d st)"
| "call_run lib md (Remove d) st = snd (RemoveDevice d st)"

definition default_accesses :: "golib \<Rightarrow> ('e, 'f) metadata_scheme \<Rightarrow> string \<Rightarrow> access list" where
  "default_accesses lib md d =
     (case md_GetDeviceByName md d of
        Inl e \<Rightarrow> []
      | Inr p \<Rightarrow> (case md_GetProfileByName md p of
            Inl e \<Rightarrow> []
          | Inr drs \<Rightarrow> put_all d (map (\<lambda>dr. (pr_Name dr, parseDefaultValue lib (pr_DefaultValue dr) (pr_ValueType dr))) drs)))"

fun call_accesses :: "golib \<Rightarrow> ('e, 'f) metadata_scheme \<Rightarrow> device_call \<Rightarrow> access list" where
  "call_accesses lib md (Add d) = default_accesses lib md d"
| "call_accesses lib md (Update d) = default_accesses lib md d"
| "call_accesses lib md (Remove d) = [DropValues d, DropEids d]"

lemma call_accesses_device: "a \<in> set (call_accesses lib md c) \<Longrightarrow> access_device a = call_device c"
  by (cases c) (auto simp: default_accesses_def dest: put_all_device split: sum.splits)

lemma default_accesses_run:
  "fold access_run (default_accesses lib md d) st = snd (AddDevice lib md d st)"
  by (auto simp: default_accesses_def AddDevice_def init_resources_def put_all_def fold_map DeviceInit_is_Set
      fun_eq_iff intro!: fold_cong split: sum.splits)

text \<open>Alone, the accesses of a callback do what the callback does. The removal of an unknown
  device stops at its first access.\<close>

lemma call_accesses_run:
  assumes "\<And>d. c = Remove d \<Longrightarrow> d \<in> known_devices st"
  shows "fold access_run (call_accesses lib md c) st = call_run lib md c st"
proof (cases c)
  case (Remove d)
  then show ?thesis
    using assms by (auto simp: RemoveDevice_known DeleteDeviceValues_def known_devices_iff split: option.splits)
qed (simp_all add: default_accesses_run AddDevice_def UpdateDevice_def)

section \<open>A frame as a list of accesses\<close>

text \<open>
  \<open>frame\<close> is an intact monitoring or alarm frame of device \<open>d\<close>, and \<open>its\<close> are the items its
  head counts.
\<close>

definition frame_items :: "slice \<Rightarrow> 'a config_state_scheme \<Rightarrow> string \<Rightarrow> wire_item list \<Rightarrow> bool" where
  "frame_items frame st d its \<longleftrightarrow>
     (\<exists>sid head all.
        vis frame = sid @ head # enc_items le16_put all @ be16_put (CRC16 (sid @ head # enc_items le16_put all)) \<and>
        length sid = 6 \<and> list_all wf_item all \<and> drop_bit 3 head AND 0x1 = 0 \<and> head AND 0x07 \<in> {0, 2} \<and>
        LookupDeviceName (hex_upper sid) st = Some d \<and> its = take (unat (drop_bit 4 head)) all)"

lemma AsyncReporting_row: "AsyncReporting order d src vs st = Done st' \<Longrightarrow> row_of k st' = row_of k st"
  by (auto simp: AsyncReporting_def Let_def row_of_def GetDeviceValue_def LookupDeviceName_def split: if_splits)

lemma AsyncReporting_eids:
  "AsyncReporting order d src vs st = Done st' \<Longrightarrow> SensorIDToDeviceName st' = SensorIDToDeviceName st"
  by (auto simp: AsyncReporting_def Let_def split: if_splits)

lemma frame_accesses_row:
  assumes "wf_eids st"
  shows "row_of k (fold access_run (frame_accesses d now its) st) =
    (if k = d then (fst (row_of d st) ++ last_value ((''lastDataTimestamp'', VInt64 (of_int now)) # decoded its),
         snd (row_of d st))
     else row_of k st)"
proof -
  have "filter (\<lambda>a. access_device a = k) (frame_accesses d now its) = (if k = d then frame_accesses d now its else [])"
    by (auto simp: frame_accesses_def filter_empty_conv filter_id_conv dest: put_all_device)
  then have "row_of k (fold access_run (frame_accesses d now its) st) =
      fold row_access (if k = d then frame_accesses d now its else []) (row_of k st)"
    by (simp only: rows.row_runs [OF assms])
  then show ?thesis
    by (cases "row_of d st") (simp add: frame_accesses_def put_all_row del: last_value_Cons)
qed

lemma frame_accesses_run:
  assumes "frame_items frame st d its" "wf_eids st"
    and "parse_frame (Some (AsyncReporting order)) frame st = Done st'"
  shows "row_of k st' = row_of k (fold access_run (frame_accesses d (clock st) its) st) \<and> wf_eids st'"
proof -
  obtain sid head all where f:
    "vis frame = sid @ head # enc_items le16_put all @ be16_put (CRC16 (sid @ head # enc_items le16_put all))"
    "length sid = 6" "list_all wf_item all" "drop_bit 3 head AND 0x1 = 0" "head AND 0x07 \<in> {0, 2}"
    "LookupDeviceName (hex_upper sid) st = Some d" "its = take (unat (drop_bit 4 head)) all"
    using assms(1) by (auto simp: frame_items_def)
  from business_frame_effect [OF f(1-4) refl f(5,6)] obtain rv st2
    where b: "business_effect d its (status_frame (drop_bit 4 head) ((head AND 0x07) + 1) 0xFF) st rv st2"
    and cb: "\<And>cb. parse_frame cb frame st = (case cb of None \<Rightarrow> Done st2
        | Some f \<Rightarrow> if rv = [] then Done st2 else f d ''AsyncReporting'' rv st2)"
    unfolding f(7) by (elim exE conjE) blast
  note e = b cb [of "Some (AsyncReporting order)", simplified option.case]
  have "row_of k st' = row_of k st2 \<and> SensorIDToDeviceName st' = SensorIDToDeviceName st2"
    using e(2) assms(3) by (auto simp: AsyncReporting_row AsyncReporting_eids split: if_splits)
  moreover have "row_of k st2 = row_of k (fold access_run (frame_accesses d (clock st) its) st)"
    using e(1) unfolding frame_accesses_row [OF assms(2)]
    by (auto simp: business_effect_def row_of_def LookupDeviceName_def map_add_def fun_eq_iff split: option.splits)
  ultimately show ?thesis using e(1) assms(2) by (simp add: business_effect_def wf_eids_def)
qed

text \<open>The removal of the device among the accesses of the frame.\<close>

lemma shuffles_Cons: "zs \<in> shuffles xs (y # ys) \<longleftrightarrow> (\<exists>p q zs'. xs = p @ q \<and> zs = p @ y # zs' \<and> zs' \<in> shuffles q ys)"
proof (induction xs arbitrary: zs)
  case (Cons x xs)
  show ?case (is "_ \<longleftrightarrow> ?R")
  proof
    assume "zs \<in> shuffles (x # xs) (y # ys)"
    then consider zs' where "zs = x # zs'" "zs' \<in> shuffles xs (y # ys)" | zs' where "zs = y # zs'" "zs' \<in> shuffles (x # xs) ys"
      by auto
    then show ?R
    proof cases
      case 1
      then obtain p q zs2 where "xs = p @ q" "zs' = p @ y # zs2" "zs2 \<in> shuffles q ys" using Cons.IH by blast
      then show ?thesis using 1 by (intro exI [of _ "x # p"] exI [of _ q] exI [of _ zs2]) simp
    next
      case 2
      then show ?thesis by (intro exI [of _ "[]"] exI [of _ "x # xs"] exI [of _ zs']) simp
    qed
  next
    assume ?R
    then obtain p q zs' where r: "x # xs = p @ q" "zs = p @ y # zs'" "zs' \<in> shuffles q ys" by blast
    show "zs \<in> shuffles (x # xs) (y # ys)"
    proof (cases p)
      case Nil
      then show ?thesis using r by auto
    next
      case (Cons a p')
      then have "x # p' @ y # zs' = zs" "p' @ y # zs' \<in> shuffles xs (y # ys)" using r Cons.IH by auto
      then show ?thesis by auto
    qed
  qed
qed auto

lemma removal_row:
  assumes "zs \<in> shuffles (put_all d nvs) (call_accesses lib md (Remove d))"
  shows "\<exists>kept. suffix kept nvs \<and> fold row_access zs rw = (last_value kept, {})"
proof -
  obtain p q q' q'' where zs: "put_all d nvs = p @ q @ q'" "zs = p @ DropValues d # q @ DropEids d # q'"
    using assms by (auto simp: shuffles_Cons)
  obtain a b c where nvs: "nvs = a @ b @ c" "p = put_all d a" "q = put_all d b" "q' = put_all d c"
  proof -
    obtain a bc where a: "nvs = a @ bc" "p = put_all d a" "q @ q' = put_all d bc"
      using put_all_split [OF zs(1)] by blast
    moreover obtain b c where "bc = b @ c" "q = put_all d b" "q' = put_all d c"
      using put_all_split [OF a(3) [symmetric]] by blast
    ultimately show thesis using that by blast
  qed
  obtain vs es where "fold row_access p rw = (vs, es)" by (cases "fold row_access p rw")
  then have "fold row_access zs rw = (last_value b ++ last_value c, {})"
    by (simp add: zs(2) nvs(3,4) put_all_row)
  also have "last_value b ++ last_value c = last_value (b @ c)"
    by (simp add: last_value_def fun_eq_iff map_add_def split: option.splits)
  finally show ?thesis by (intro exI [of _ "b @ c"]) (simp add: nvs(1) suffix_def)
qed

lemma removal_row_any:
  assumes "suffix kept nvs"
  shows "\<exists>zs \<in> shuffles (put_all d nvs) (call_accesses lib md (Remove d)).
     fold row_access zs rw = (last_value kept, {})"
proof -
  obtain a where nvs: "nvs = a @ kept" using assms by (auto simp: suffix_def)
  let ?zs = "put_all d a @ DropValues d # DropEids d # put_all d kept"
  have "?zs \<in> shuffles (put_all d nvs) (call_accesses lib md (Remove d))"
    unfolding call_accesses.simps shuffles_Cons nvs
    by (intro exI [of _ "put_all d a"] exI [of _ "put_all d kept"] exI [of _ "DropEids d # put_all d kept"]
        exI [of _ "[]"] conjI) (simp_all add: put_all_def)
  moreover obtain vs es where "fold row_access (put_all d a) rw = (vs, es)" by (cases "fold row_access (put_all d a) rw")
  then have "fold row_access ?zs rw = (last_value kept, {})" by (simp add: put_all_row)
  ultimately show ?thesis by blast
qed

text \<open>One after the other, the frame and the removal leave nothing of the device.\<close>

lemma removal_serial:
  assumes "wf_eids st" "d \<in> known_devices st"
  shows "row_of d (snd (RemoveDevice d st)) = (Map.empty, {})"
    and "frame_items frame st d its \<Longrightarrow> parse_frame cb frame (snd (RemoveDevice d st)) = Done (snd (RemoveDevice d st))"
proof -
  show "row_of d (snd (RemoveDevice d st)) = (Map.empty, {})"
    using assms by (auto simp: row_of_def RemoveDevice_get RemoveDevice_lookup)
  assume "frame_items frame st d its"
  then obtain sid head all where f:
    "vis frame = sid @ head # enc_items le16_put all @ be16_put (CRC16 (sid @ head # enc_items le16_put all))"
    "length sid = 6" "LookupDeviceName (hex_upper sid) st = Some d"
    by (auto simp: frame_items_def)
  then have "LookupDeviceName (hex_upper sid) (snd (RemoveDevice d st)) = None"
    using assms by (simp add: RemoveDevice_lookup)
  then show "parse_frame cb frame (snd (RemoveDevice d st)) = Done (snd (RemoveDevice d st))"
    by (simp add: parse_frame_parts [OF f(1,2)])
qed

section \<open>Properties\<close>

text \<open>C13: while the parser stores a business frame of one device, a callback of the
  SDK may add, update or remove another device, with its accesses at any points between those
  of the parser: every device ends with the values and EIDs it has when the callback runs
  after the frame.\<close>

theorem concurrent_call_on_other_device:
  assumes "frame_items frame st d its" "wf_eids st"
    and "parse_frame (Some (AsyncReporting order)) frame st = Done st'"
    and "call_device c \<noteq> d" "\<And>d'. c = Remove d' \<Longrightarrow> d' \<in> known_devices st'"
    and "zs \<in> shuffles (frame_accesses d (clock st) its) (call_accesses lib md c)"
  shows "row_of k (fold access_run zs st) = row_of k (call_run lib md c st')"
proof -
  let ?xs = "frame_accesses d (clock st) its" and ?ys = "call_accesses lib md c"
  have rows: "row_of j st' = row_of j (fold access_run ?xs st)" and wf: "wf_eids st'" for j
    using frame_accesses_run [OF assms(1-3), of j] by simp_all
  have "row_of k (fold access_run zs st) = row_of k (fold access_run ?ys (fold access_run ?xs st))"
    by (rule rows.shuffle_serial [OF assms(2,6), where i = d and j = "call_device c"])
      (use assms(4) in \<open>auto simp: frame_accesses_def call_accesses_device dest: put_all_device\<close>)
  also have "\<dots> = row_of k (fold access_run ?ys st')"
    using rows wf assms(2) by (simp add: rows.row_runs rows.runs_keep)
  finally show ?thesis by (simp add: call_accesses_run [OF assms(5)])
qed

text \<open>C14: a device that is removed while a frame of it is being stored may keep values. Whatever
  the moment of the removal, no EID names the device afterwards, but the accesses of the parser
  that come after \<open>DeleteDeviceValues\<close> create its row again, so that the device ends with the
  values of exactly some rest of the frame, and every rest is possible, though one after the
  other the two would leave none.\<close>

theorem removal_during_frame:
  assumes "frame_items frame st d its" "wf_eids st"
  shows "(\<exists>zs \<in> shuffles (frame_accesses d (clock st) its) (call_accesses lib md (Remove d)).
      row_of d (fold access_run zs st) = row) \<longleftrightarrow>
    (\<exists>nvs. suffix nvs ((''lastDataTimestamp'', VInt64 (of_int (clock st))) # decoded its) \<and> row = (last_value nvs, {}))"
proof -
  let ?nvs = "(''lastDataTimestamp'', VInt64 (of_int (clock st))) # decoded its"
  have "row_of d (fold access_run zs st) = fold row_access zs (row_of d st)"
    if "zs \<in> shuffles (put_all d ?nvs) (call_accesses lib md (Remove d))" for zs
  proof -
    have "access_device a = d" if "a \<in> set zs" for a
      using that set_shuffles [OF \<open>zs \<in> _\<close>] by (auto dest: put_all_device)
    then show ?thesis by (simp add: rows.row_runs [OF assms(2)] filter_True)
  qed
  then show ?thesis
    unfolding frame_accesses_def
    using removal_row [where nvs = ?nvs] removal_row_any [where nvs = ?nvs] by (metis (no_types, lifting))
qed

lemma demo_frame:
  "frame_items (demo_uplink 0x00 []) demo_driver ''Data-Demo'' []" "wf_eids demo_driver"
  "\<exists>st'. parse_frame (Some (AsyncReporting order)) (demo_uplink 0x00 []) demo_driver = Done st'"
proof -
  have d: "LookupDeviceName (hex_upper [0x23, 0x8A, 0x08, 0x26, 0x23, 0x19]) demo_driver = Some ''Data-Demo''"
    by (simp add: LookupDeviceName_def hex_upper_def hex_upper_digits_def)
  then show "frame_items (demo_uplink 0x00 []) demo_driver ''Data-Demo'' []"
    unfolding frame_items_def
    by (intro exI [of _ "[0x23, 0x8A, 0x08, 0x26, 0x23, 0x19]"] exI [of _ "0x00"] exI [of _ "[]"])
      (simp add: demo_uplink_def with_crc_def enc_items_def)
  show "wf_eids demo_driver" by (simp add: wf_eids_def wf_map_def)
  have v: "vis (demo_uplink 0x00 []) = [0x23, 0x8A, 0x08, 0x26, 0x23, 0x19] @ 0x00 # enc_items le16_put [] @
      be16_put (CRC16 ([0x23, 0x8A, 0x08, 0x26, 0x23, 0x19] @ 0x00 # enc_items le16_put []))"
    by (simp add: demo_uplink_def with_crc_def enc_items_def)
  obtain rv :: "gvalue gomap" and st' where e: "business_effect ''Data-Demo'' [] (status_frame 0 1 0xFF) demo_driver rv st'"
    "\<forall>cb. parse_frame cb (demo_uplink 0x00 []) demo_driver = (case cb of None \<Rightarrow> Done st'
       | Some f \<Rightarrow> if rv = [] then Done st' else f ''Data-Demo'' ''AsyncReporting'' rv st')"
    using business_frame_effect [OF v _ _ _ _ _ d, where pt = 0] by auto
  have "\<forall>r. mget rv r = None" using e(1) by (simp add: business_effect_def decoded_def List.map_filter_def)
  then have "rv = []" by (cases rv) (auto split: if_splits)
  then show "\<exists>st'. parse_frame (Some (AsyncReporting order)) (demo_uplink 0x00 []) demo_driver = Done st'"
    using e(2) by simp
qed

theorem concurrent_call_on_other_device_witness:
  "\<exists>st'. parse_frame (Some (AsyncReporting (\<lambda>vs. vs))) (demo_uplink 0x00 []) demo_driver = Done st' \<and>
     row_of ''Meter'' (fold access_run [Put ''Meter'' ''period'' (VUint16 60),
         Put ''Data-Demo'' ''lastDataTimestamp'' (VInt64 (of_int (clock demo_driver)))] demo_driver) =
       row_of ''Meter'' (call_run demo_lib demo_metadata (Add ''Meter'') st')"
proof -
  obtain st' where st': "parse_frame (Some (AsyncReporting (\<lambda>vs. vs))) (demo_uplink 0x00 []) demo_driver = Done st'"
    using demo_frame(3) by blast
  have "call_accesses demo_lib demo_metadata (Add ''Meter'') = [Put ''Meter'' ''period'' (VUint16 60)]"
    by (simp add: default_accesses_def demo_metadata_def put_all_def parseDefaultValue_def ParseUint_def digit_val_def)
  moreover have "frame_accesses ''Data-Demo'' (clock demo_driver) [] =
      [Put ''Data-Demo'' ''lastDataTimestamp'' (VInt64 (of_int (clock demo_driver)))]"
    by (simp add: frame_accesses_def put_all_def decoded_def List.map_filter_def)
  ultimately have "[Put ''Meter'' ''period'' (VUint16 60),
      Put ''Data-Demo'' ''lastDataTimestamp'' (VInt64 (of_int (clock demo_driver)))] \<in>
    shuffles (frame_accesses ''Data-Demo'' (clock demo_driver) []) (call_accesses demo_lib demo_metadata (Add ''Meter''))"
    by simp
  from concurrent_call_on_other_device [OF demo_frame(1,2) st' _ _ this, where k = "''Meter''"] st'
  show ?thesis by auto
qed

theorem removal_during_frame_witness:
  "\<exists>zs. zs \<in> shuffles (frame_accesses ''Data-Demo'' (clock demo_driver) [])
      (call_accesses demo_lib demo_metadata (Remove ''Data-Demo'')) \<and>
    row_of ''Data-Demo'' (fold access_run zs demo_driver) =
      ([''lastDataTimestamp'' \<mapsto> VInt64 (of_int (clock demo_driver))], {})"
proof -
  let ?nvs = "(''lastDataTimestamp'', VInt64 (of_int (clock demo_driver))) # decoded []"
  have "last_value ?nvs = [''lastDataTimestamp'' \<mapsto> VInt64 (of_int (clock demo_driver))]"
    by (auto simp: decoded_def List.map_filter_def fun_eq_iff)
  with removal_during_frame [OF demo_frame(1,2), of demo_lib demo_metadata "(last_value ?nvs, {})"] show ?thesis
    by (metis suffix_order.order_refl)
qed

end
