(* ===== verification/Spec2Isabelle.thy ===== *)
theory Spec2Isabelle
  imports Service Interleave
begin

text \<open>
  Verification of the Wiresink device service (\<open>src/internal\<close>, \<open>src/cmd\<close>): an EdgeX device
  service that talks to a field gateway over MQTT. Uplink frames arrive as hexadecimal text,
  are checked, decoded and stored per device, answered, and reported to the EdgeX SDK; SDK
  commands become downlink control frames.

  \<^bold>\<open>Parts and theories.\<close>

  \<^item> \<open>Prelude\<close>, \<open>GoText\<close>, \<open>GoFloat\<close>, \<open>GoFormat\<close>: the Go the program uses. An
    \<open>outcome\<close> is a result, a run-time panic or waiting for ever; a \<open>slice\<close> has visible
    bytes and the spare capacity a reslice may reach; Go maps are association lists without
    order; \<open>encoding/binary\<close>, \<open>encoding/hex\<close>, \<open>strconv\<close>, \<open>strings\<close>, \<open>fmt.Sprint\<close>; floats
    are IEEE bit patterns with exact conversions.
  \<^item> \<open>Crc16\<close>: \<open>frameparser/crc.go\<close> and its copy in \<open>config/tool.go\<close>.
  \<^item> \<open>ParamValues\<close>, \<open>ParamTable\<close>, \<open>ParamStream\<close>: \<open>config/param_table_parser_data.go\<close> (the
    value parsers, the parameter table, the lookup) and the parameter items of a frame.
  \<^item> \<open>ConfigState\<close>: \<open>config/config.go\<close>, \<open>idToDevice.go\<close>, \<open>global.go\<close>: runtime values,
    resources, the EID directory, loading of the profiles.
  \<^item> \<open>ParamEntries\<close>, \<open>FrameBuild\<close>: \<open>config/param_table.go\<close> and the downlink builders in
    \<open>frameparser/*_ctl.go\<close>.
  \<^item> \<open>Relay\<close>, \<open>Broker\<close>: \<open>mqttclient/mqttclient.go\<close>, \<open>relay/egress.go\<close>.
  \<^item> \<open>CtlResponse\<close>: \<open>frameparser/parser_response.go\<close>,
    \<open>config/param_table_parser_response.go\<close>, the AT channel of \<open>config/tool.go\<close>.
  \<^item> \<open>Sharding\<close>: \<open>frameparser/sharding.go\<close>, with the timers of \<open>time.AfterFunc\<close>.
  \<^item> \<open>FrameParser\<close>: \<open>frameparser/parser.go\<close>.
  \<^item> \<open>Coerce\<close>: \<open>makeCV\<close>, \<open>coerceTo\<close> and their helpers in \<open>driver/wiresinkdriver.go\<close>, and
    the command values of the vendored SDK.
  \<^item> \<open>Driver\<close>: \<open>driver/command.go\<close>, \<open>driver/cmdupload.go\<close> and the SDK callbacks.
  \<^item> \<open>Monitor\<close>: \<open>driver/status_check.go\<close>, \<open>driver/listener.go\<close>.
  \<^item> \<open>Uplink\<close>: what survives the handling of a frame: what it may touch, what it sends, when
    it waits.
  \<^item> \<open>System\<close>: \<open>Initialize\<close>, \<open>Start\<close>, the interleaving of everything above, and the invariant every handler
    keeps.
  \<^item> \<open>Service\<close>: the runs of the service from its start on, what it sends, how its queue drains,
    and the abstract view it refines.
  \<^item> \<open>Interleave\<close>: operations on the stores that overlap, access by access.

  \<^bold>\<open>State.\<close> One record, extended from theory to theory: \<open>config_state\<close> (the package
  variables of \<open>config\<close>), \<open>gateway_state\<close> (clock, published messages, raw channel),
  \<open>shard_state\<close> (reassembly caches, timers, the channel of reassembled messages),
  \<open>driver_state\<close> (the channel to the SDK). Operations are polymorphic in the record
  extension, so each is stated on the part it uses.

  \<^bold>\<open>Interfaces.\<close> \<open>kv_store\<close> and \<open>kv_directory\<close> (keyed stores: Go maps, device values, EID
  directory), \<open>fixed_codec\<close> and \<open>item_codec\<close> (fixed-width integers, parameter items),
  \<open>checksum\<close> (the CRC as a linear register), \<open>item_loop\<close> (the three loops over items) and
  \<open>uplink_invariant\<close> (what an invariant must survive to survive the parser; four instances) and \<open>row_store\<close>
  (stores in which every access belongs to one row); each is interpreted on the definitions of the model.

  \<^bold>\<open>What is shown.\<close> The end-to-end path from a broker message to the report
  (\<open>Driver\<close>); what the parser stores, answers and rejects, and that frames with an error in
  two neighbouring bytes are rejected (\<open>FrameParser\<close>, \<open>Crc16\<close>); the layout of every downlink
  frame and which frames a write sends (\<open>FrameBuild\<close>, \<open>Driver\<close>); read-back of stored values
  and exactness of the integer coercions (\<open>Coerce\<close>, \<open>Driver\<close>); round trips of items, arrays
  and topology reports; the value store as a refinement of a partial function; reassembly in
  order, its timeouts and their progress (\<open>Sharding\<close>); how every control response ends,
  panics and blocking included (\<open>CtlResponse\<close>); that a frame touches nothing but what belongs to its
  sensor (\<open>Uplink\<close>); and for all states of all runs of the service, under any interleaving
  (\<open>System\<close>, \<open>Service\<close>): the invariants of the state and of what is sent, the refinement of an abstract
  store, that the parser waits for nothing but a full channel and drains its queue; and what
  remains when a device is changed while a frame is being stored (\<open>Interleave\<close>).
  Several theorems state what the code does where it
  does not do what it means to: their texts say so.

  \<^bold>\<open>Termination and bounds.\<close> No fuel is used. The item loops end because every round moves
  forward or counts up, the reassembly because a cache is removed before the recursion. The
  capacities (100 commands, 100 reassembled messages, 128 raw frames) are those of the code;
  the SDK channel has a capacity in the state. Go's \<open>int\<close> is 64 bits in stored values and an
  unbounded integer in positions within a frame, which stay far below the limits.

  \<^bold>\<open>Interleaving.\<close> A step of \<open>system_step\<close> is one handler run to its end: one message, one
  frame, one timer event, one SDK callback, one tick. The race between a timer and the frames
  is in it, because a timer fires and runs its callback in two steps. Inside a handler the
  locks of the code protect single accesses only: for the parser and the SDK callbacks that
  change devices, \<open>Interleave\<close> looks at all orders of their accesses. \<open>Start\<close> starts the
  parser before it rebuilds the EID directory, so a run of the service (\<open>service_run\<close>) takes
  steps from the loaded devices on and rebuilds the directory once, at any point among them.

  \<^bold>\<open>Not modelled.\<close> Logging; mutexes; the SDK bootstrap and \<open>cmd/main.go\<close>; the network
  side of the MQTT library. Parameters of the model, as they are outside the repository or
  left open by the language: the broker, JSON and YAML decoding, the file system, the device
  metadata of the SDK, decimal conversion of floats, out-of-range conversions from float to
  integer, the iteration order of maps, the spare capacity behind a decoded slice, the clock.
  Commented-out code is left out. The listener is modelled but nothing in the repository
  starts it, so it is no step of the system.
\<close>

end
